theory Spec2Isabelle
  imports Complex_Main "HOL-Library.Word" "HOL-Library.Signed_Division"
begin

section \<open>Data model\<close>

text \<open>
  \<^verbatim>\<open>main.c\<close> of mini-iso-tools presents a menu of installation ISOs and writes the
  chosen one to a file that \<^verbatim>\<open>/bin/sh\<close> can source. The structs \<^verbatim>\<open>iso_data_t\<close>,
  \<^verbatim>\<open>choices_t\<close> and \<^verbatim>\<open>args_t\<close> are declared in headers that \<^verbatim>\<open>main.c\<close> includes;
  the records below hold the fields \<^verbatim>\<open>main.c\<close> reads and writes, with the types its
  uses fix: \<^verbatim>\<open>size\<close> is printed with \<^verbatim>\<open>PRId64\<close>, \<^verbatim>\<open>len\<close> and \<^verbatim>\<open>num_infiles\<close> are
  compared with an \<^verbatim>\<open>int\<close> counter, \<^verbatim>\<open>values\<close> holds pointers to \<^verbatim>\<open>iso_data_t\<close>.
  A C string is the list of its bytes before the terminating NUL; a pointer that may
  be \<^verbatim>\<open>NULL\<close> is an \<open>option\<close>.
\<close>

record iso_data_t =
  url :: string
  label :: string
  sha256sum :: string
  size_b :: "64 word"

record choices_t =
  len :: int
  values_a :: "iso_data_t option list"

record args_t =
  outfile :: string
  num_infiles :: int
  infiles :: "string list"

text \<open>
  What C leaves undefined is a value of the model: dereferencing \<^verbatim>\<open>NULL\<close> and
  indexing an array outside its allocation. A run of the program ends by \<^verbatim>\<open>exit\<close> or
  \<^verbatim>\<open>return\<close> from \<^verbatim>\<open>main\<close> with a status, by such a fault, or not at all because
  the selection loop is still running.
\<close>

datatype fault = NullDeref | OutOfBounds

datatype stop = Exit int | Crash fault | Blocked

definition array_get :: "'a list \<Rightarrow> int \<Rightarrow> fault + 'a" where
  "array_get xs i =
     (if 0 \<le> i \<and> i < int (length xs) then Inr (xs ! nat i) else Inl OutOfBounds)"

definition array_set :: "'a list \<Rightarrow> int \<Rightarrow> 'a \<Rightarrow> fault + 'a list" where
  "array_set xs i v =
     (if 0 \<le> i \<and> i < int (length xs) then Inr (xs[nat i := v]) else Inl OutOfBounds)"

text \<open>\<^verbatim>\<open>choices->values[i]->label\<close>: the slot is read, then the pointer in it is followed.\<close>

definition choice_at :: "choices_t \<Rightarrow> int \<Rightarrow> fault + iso_data_t" where
  "choice_at c i =
     (case array_get (values_a c) i of
        Inl e \<Rightarrow> Inl e
      | Inr None \<Rightarrow> Inl NullDeref
      | Inr (Some d) \<Rightarrow> Inr d)"

section \<open>Choice set construction: \<^verbatim>\<open>read_iso_choices\<close>\<close>

text \<open>
  Modelled from the spec: \<^verbatim>\<open>choices_create\<close> is defined outside \<^verbatim>\<open>main.c\<close>. The
  ChoiceSet is an ordered sequence whose length is the number of input feeds, so
  \<^verbatim>\<open>choices_create n\<close> gives \<open>n\<close> empty slots and \<^verbatim>\<open>len = n\<close>; \<^verbatim>\<open>main\<close> tests the result
  of \<^verbatim>\<open>read_iso_choices\<close> against \<^verbatim>\<open>NULL\<close>, so the allocation may fail (\<open>alloc_ok\<close>).
\<close>

definition choices_create :: "bool \<Rightarrow> int \<Rightarrow> choices_t option" where
  "choices_create alloc_ok n =
     (if alloc_ok then Some \<lparr>len = n, values_a = replicate (nat n) None\<rparr> else None)"

text \<open>
  The Feed Reader \<^verbatim>\<open>get_newest_iso\<close> and the macro \<^verbatim>\<open>ARCH\<close> are defined outside
  \<^verbatim>\<open>main.c\<close> and are parameters \<open>gni\<close> and \<open>arch\<close>. \<^verbatim>\<open>get_newest_iso\<close> returns the
  pointer that \<^verbatim>\<open>main.c\<close> stores in \<^verbatim>\<open>values[i]\<close>; a Feed Reader that reports a failure to
  its caller has only the \<^verbatim>\<open>NULL\<close> pointer to do it. The loop of \<^verbatim>\<open>read_iso_choices\<close> carries the
  log of the calls made to the Feed Reader (file and architecture, oldest first) and
  the choice set being filled:
  \<^verbatim>\<open>for(int i = 0; i < args->num_infiles; i++)
      choices->values[i] = get_newest_iso(args->infiles[i], ARCH);\<close>
\<close>

type_synonym feed_reader = "string \<Rightarrow> string \<Rightarrow> iso_data_t option"

type_synonym call_log = "(string \<times> string) list"

function read_iso_loop ::
  "feed_reader \<Rightarrow> string \<Rightarrow> args_t \<Rightarrow> int \<Rightarrow> call_log \<Rightarrow> choices_t
     \<Rightarrow> fault + (call_log \<times> choices_t)" where
  "read_iso_loop gni arch args i calls chs =
     (if i < num_infiles args then
        (case array_get (infiles args) i of
           Inl e \<Rightarrow> Inl e
         | Inr f \<Rightarrow>
             (case array_set (values_a chs) i (gni f arch) of
                Inl e \<Rightarrow> Inl e
              | Inr vs \<Rightarrow>
                  read_iso_loop gni arch args (i + 1) (calls @ [(f, arch)])
                    (chs\<lparr>values_a := vs\<rparr>)))
      else Inr (calls, chs))"
  by pat_completeness auto
termination
  by (relation "measure (\<lambda>(gni, arch, args, i, calls, chs). nat (num_infiles args - i))")
    auto

text \<open>
  \<^verbatim>\<open>read_iso_choices\<close> returns the pointer \<^verbatim>\<open>choices_create\<close> gave it, whatever the
  Feed Reader returned on the way. With a \<^verbatim>\<open>NULL\<close> allocation the first store
  dereferences \<^verbatim>\<open>NULL\<close>.
\<close>

definition read_iso_choices ::
  "bool \<Rightarrow> feed_reader \<Rightarrow> string \<Rightarrow> args_t \<Rightarrow> fault + (call_log \<times> choices_t option)" where
  "read_iso_choices alloc_ok gni arch args =
     (case choices_create alloc_ok (num_infiles args) of
        None \<Rightarrow> (if 0 < num_infiles args then Inl NullDeref else Inr ([], None))
      | Some chs \<Rightarrow>
          (case read_iso_loop gni arch args 0 [] chs of
             Inl e \<Rightarrow> Inl e
           | Inr (calls, c) \<Rightarrow> Inr (calls, Some c)))"

text \<open>
  \<^verbatim>\<open>args_create\<close> is outside \<^verbatim>\<open>main.c\<close>; the parsed arguments it returns hold
  \<^verbatim>\<open>num_infiles\<close> file names.
\<close>

definition args_ok :: "args_t \<Rightarrow> bool" where
  "args_ok args = (num_infiles args = int (length (infiles args)))"

section \<open>Screen geometry and the banner\<close>

text \<open>
  The ncurses globals \<^verbatim>\<open>LINES\<close> and \<^verbatim>\<open>COLS\<close> are parameters. C's \<^verbatim>\<open>/\<close> on \<^verbatim>\<open>int\<close>
  truncates towards zero: \<open>sdiv\<close>, not HOL's \<open>div\<close>, which rounds down. Terminal sizes
  and label lengths are far from \<^verbatim>\<open>INT_MAX\<close>, so \<^verbatim>\<open>int\<close> is \<open>int\<close>.
\<close>

definition horizontal_center :: "int \<Rightarrow> int \<Rightarrow> int" where
  "horizontal_center COLS l = (COLS - l) sdiv 2"

definition vertical_center :: "int \<Rightarrow> int \<Rightarrow> int" where
  "vertical_center LINES l = 3 + (LINES - 3 - l) sdiv 2"

text \<open>
  The calls \<^verbatim>\<open>main.c\<close> makes to ncurses to set colours and to draw are recorded in
  the order they are made. \<^verbatim>\<open>HLine y x wc pair n\<close> is \<^verbatim>\<open>mvhline_set\<close> of \<open>n\<close> cells
  holding the wide character \<open>wc\<close> (its code point) in colour pair \<open>pair\<close>, from
  column \<open>x\<close> of row \<open>y\<close>; \<^verbatim>\<open>AddStr y x s\<close> is \<^verbatim>\<open>mvaddstr\<close>.
\<close>

datatype curses_op =
    InitColor int int int int
  | InitPair int int int
  | HLine int int nat int int
  | AttrOn int
  | AttrOff int
  | AddStr int int string

record resources_t =
  ubuntu_orange :: int
  text_white :: int
  back_green :: int
  black :: int
  black_orange :: int
  white_orange :: int
  white_green :: int

definition draw_line :: "int \<Rightarrow> int \<Rightarrow> nat \<Rightarrow> int \<Rightarrow> curses_op list" where
  "draw_line COLS y wchar color = [HLine y 0 wchar color COLS]"

definition top_banner :: "int \<Rightarrow> resources_t \<Rightarrow> string \<Rightarrow> curses_op list" where
  "top_banner COLS resources lbl =
     draw_line COLS 0 0x2580 (black_orange resources)
     @ draw_line COLS 1 0x20 (white_orange resources)
     @ draw_line COLS 2 0x2584 (black_orange resources)
     @ [AttrOn (white_orange resources),
        AddStr 1 (horizontal_center COLS (int (length lbl))) lbl,
        AttrOff (white_orange resources)]"



section \<open>The locale\<close>

text \<open>
  \<^verbatim>\<open>main\<close> sets the locale \<^verbatim>\<open>C.UTF-8\<close>, and the menu library asks the C library about
  the characters of an item's name. \<^verbatim>\<open>mbstowcs\<close> turns the bytes of a string into
  code points, or fails; in this locale a character is one byte below \<^verbatim>\<open>0x80\<close>, or
  a lead byte from \<^verbatim>\<open>0xC2\<close> to \<^verbatim>\<open>0xFD\<close> followed by one to five bytes from \<^verbatim>\<open>0x80\<close>
  to \<^verbatim>\<open>0xBF\<close>, each giving six bits; an encoding longer than the code point needs
  and the code points from \<^verbatim>\<open>0xD800\<close> to \<^verbatim>\<open>0xDFFF\<close> are refused. \<open>mbs k cp lo\<close> reads
  a string when \<open>k\<close> bytes of the current character are still to come, \<open>cp\<close> holds
  the bits read so far and \<open>lo\<close> is the least code point its length may encode.
\<close>

fun mbs :: "nat \<Rightarrow> nat \<Rightarrow> nat \<Rightarrow> nat list \<Rightarrow> nat list option" where
  "mbs k cp lo [] = (if k = 0 then Some [] else None)"
| "mbs k cp lo (b # bs) =
     (if k = 0 then
        (if b < 0x80 then map_option ((#) b) (mbs 0 0 0 bs)
         else if 0xC2 \<le> b \<and> b < 0xE0 then mbs 1 (b - 0xC0) 0x80 bs
         else if 0xE0 \<le> b \<and> b < 0xF0 then mbs 2 (b - 0xE0) 0x800 bs
         else if 0xF0 \<le> b \<and> b < 0xF8 then mbs 3 (b - 0xF0) 0x10000 bs
         else if 0xF8 \<le> b \<and> b < 0xFC then mbs 4 (b - 0xF8) 0x200000 bs
         else if 0xFC \<le> b \<and> b < 0xFE then mbs 5 (b - 0xFC) 0x4000000 bs
         else None)
      else if 0x80 \<le> b \<and> b < 0xC0 then
        (if k = 1 then
           (if cp * 64 + (b - 0x80) < lo
               \<or> (0xD800 \<le> cp * 64 + (b - 0x80) \<and> cp * 64 + (b - 0x80) < 0xE000)
            then None
            else map_option ((#) (cp * 64 + (b - 0x80))) (mbs 0 0 0 bs))
         else mbs (k - 1) (cp * 64 + (b - 0x80)) lo bs)
      else None)"

definition mbstowcs :: "string \<Rightarrow> nat list option" where
  "mbstowcs s = mbs 0 0 0 (map of_char s)"

text \<open>
  \<^verbatim>\<open>iswprint\<close> and \<^verbatim>\<open>wcwidth\<close>: below \<^verbatim>\<open>0x80\<close> the printable characters are those from
  the space to the tilde, each one column wide. For the other code points the
  locale's tables are parameters: \<open>wp\<close> says which are printable, \<open>ww\<close> how
  many columns each takes.
\<close>

definition iswprint :: "(nat \<Rightarrow> bool) \<Rightarrow> nat \<Rightarrow> bool" where
  "iswprint wp cp = (if cp < 0x80 then 0x20 \<le> cp \<and> cp < 0x7F else wp cp)"

definition wcwidth :: "(nat \<Rightarrow> int) \<Rightarrow> nat \<Rightarrow> int" where
  "wcwidth ww cp =
     (if cp < 0x80 then (if 0x20 \<le> cp \<and> cp < 0x7F then 1 else if cp = 0 then 0 else - 1)
      else ww cp)"

section \<open>Buttons and the menu\<close>

text \<open>
  \<^verbatim>\<open>saprintf\<close> (outside \<^verbatim>\<open>main.c\<close>) is \<^verbatim>\<open>sprintf\<close> into a fresh buffer. The
  conversion \<^verbatim>\<open>%-*s\<close> writes the string and pads it on the right with spaces up to the
  field width, counted in bytes, never cutting it; a negative width is its absolute
  value with the \<^verbatim>\<open>-\<close> flag. The arrow U+25B8 is three bytes in UTF-8.
\<close>

definition fmt_left :: "int \<Rightarrow> string \<Rightarrow> string" where
  "fmt_left w s = s @ replicate (nat \<bar>w\<bar> - length s) (CHR '' '')"

definition utf8_25b8 :: string where
  "utf8_25b8 = [CHR 0xE2, CHR 0x96, CHR 0xB8]"

definition button_text :: "string \<Rightarrow> int \<Rightarrow> string" where
  "button_text lbl textwidth = ''[ '' @ fmt_left textwidth lbl @ '' '' @ utf8_25b8 @ '' ]''"

text \<open>
  \<^verbatim>\<open>new_item\<close> of the menu library returns \<^verbatim>\<open>NULL\<close> for an empty name and for a name
  that is not a printable string. A string is printable when \<^verbatim>\<open>mbstowcs\<close> fails on
  it, or when every code point it gives is printable. Otherwise \<^verbatim>\<open>new_item\<close> keeps the
  name: an \<^verbatim>\<open>ITEM\<close> that is not yet in a menu is its name.
\<close>

definition Is_Printable_String :: "(nat \<Rightarrow> bool) \<Rightarrow> string \<Rightarrow> bool" where
  "Is_Printable_String wp s =
     (case mbstowcs s of None \<Rightarrow> True | Some ws \<Rightarrow> list_all (iswprint wp) ws)"

definition new_item :: "(nat \<Rightarrow> bool) \<Rightarrow> string \<Rightarrow> string option" where
  "new_item wp name = (if name = [] \<or> \<not> Is_Printable_String wp name then None else Some name)"

definition button_item :: "(nat \<Rightarrow> bool) \<Rightarrow> string \<Rightarrow> int \<Rightarrow> string option" where
  "button_item wp lbl textwidth = new_item wp (button_text lbl textwidth)"

text \<open>
  \<^verbatim>\<open>newwin\<close> returns \<^verbatim>\<open>NULL\<close> when a coordinate or a size is negative. A size of 0
  stands for the rest of the screen from the corner; a size that is then not
  positive, or above 32767, gives \<^verbatim>\<open>NULL\<close> too. A window may reach beyond the screen.
  A \<^verbatim>\<open>WINDOW *\<close> is the geometry of the call together with whether the pointer is
  \<^verbatim>\<open>NULL\<close>. Coordinates stay far below 32768.
\<close>

record WINDOW =
  nlines :: int
  ncols :: int
  begin_y :: int
  begin_x :: int
  is_null :: bool

definition newwin :: "int \<Rightarrow> int \<Rightarrow> int \<Rightarrow> int \<Rightarrow> int \<Rightarrow> int \<Rightarrow> WINDOW" where
  "newwin LINES COLS num_lines num_columns begy begx =
     (let nl = (if num_lines = 0 then LINES - begy else num_lines);
          nc = (if num_columns = 0 then COLS - begx else num_columns)
      in \<lparr>nlines = nl, ncols = nc, begin_y = begy, begin_x = begx,
          is_null = (begy < 0 \<or> begx < 0 \<or> num_lines < 0 \<or> num_columns < 0
                     \<or> nl \<le> 0 \<or> 32767 < nl \<or> nc \<le> 0 \<or> 32767 < nc)\<rparr>)"

text \<open>
  The menu library of ncurses, as far as \<^verbatim>\<open>main.c\<close> uses it. It keeps the number of
  items and the widths in \<^verbatim>\<open>short\<close>: a value that does not fit keeps its low 16 bits.
  The width of an item is the width of its name. The library takes the length of
  the name in bytes as an \<^verbatim>\<open>unsigned short\<close>; when that is 0 the width is 0, when
  \<^verbatim>\<open>mbstowcs\<close> fails the width is that length, and otherwise it is the sum of the
  columns of the code points, each counted as at least one.
\<close>

definition to_short :: "int \<Rightarrow> int" where
  "to_short n = (n + 32768) mod 65536 - 32768"

definition Calculate_Text_Width :: "(nat \<Rightarrow> int) \<Rightarrow> string \<Rightarrow> int" where
  "Calculate_Text_Width ww s =
     (if int (length s) mod 65536 = 0 then 0
      else case mbstowcs s of
             None \<Rightarrow> int (length s) mod 65536
           | Some ws \<Rightarrow>
               sum_list (map (\<lambda>cp. if wcwidth ww cp \<le> 0 then 1 else wcwidth ww cp) ws))"

text \<open>
  A \<^verbatim>\<open>MENU\<close> is the names of its items, their number and the width of the widest
  name as the library keeps them, the index of the current item and whether the
  menu is posted. \<^verbatim>\<open>new_menu\<close> takes the items up to the first \<^verbatim>\<open>NULL\<close> and makes the
  first one current; when the first pointer is \<^verbatim>\<open>NULL\<close> it returns a menu without
  items. \<^verbatim>\<open>main.c\<close> sets no description and clears the mark, so an item is as wide
  as its name. \<^verbatim>\<open>post_menu\<close> posts a menu that has items when the pad it asks for,
  of as many lines as there are items and as many columns as the widest item, has
  a positive height and width; it uses the window of the menu, or \<^verbatim>\<open>stdscr\<close> when
  that window is \<^verbatim>\<open>NULL\<close>, and a window smaller than the menu does not make it fail.
  \<^verbatim>\<open>main.c\<close> leaves the menu options at their default, which includes
  \<^verbatim>\<open>O_NONCYCLIC\<close>: on a posted menu \<^verbatim>\<open>REQ_DOWN_ITEM\<close> moves to the next item and is
  denied on the last one, \<^verbatim>\<open>REQ_UP_ITEM\<close> moves to the previous item and is denied on
  the first; a denied request, a request on a menu that is not posted and a request
  on \<^verbatim>\<open>NULL\<close> change nothing. \<^verbatim>\<open>current_item\<close> gives \<^verbatim>\<open>NULL\<close> for \<^verbatim>\<open>NULL\<close> and for a menu
  without items, and \<^verbatim>\<open>item_index\<close> gives \<^verbatim>\<open>ERR\<close> (-1) for \<^verbatim>\<open>NULL\<close>. An \<^verbatim>\<open>ITEM *\<close> taken
  from a menu is the index of the item. Allocations in the library are taken to
  succeed, and strings to be shorter than \<open>2\<^sup>3\<^sup>1\<close> bytes.
\<close>

record MENU =
  item_names :: "string list"
  nitems :: int
  namelen :: int
  curitem :: int
  menu_fore :: int
  posted :: bool

datatype menu_request = REQ_DOWN_ITEM | REQ_UP_ITEM

definition new_menu :: "(nat \<Rightarrow> int) \<Rightarrow> string option list \<Rightarrow> MENU option" where
  "new_menu ww its =
     (let names = map the (takeWhile (\<lambda>p. p \<noteq> None) its)
      in Some \<lparr>item_names = names,
               nitems = to_short (int (length names)),
               namelen = to_short (foldl max 0 (map (Calculate_Text_Width ww) names)),
               curitem = 0, menu_fore = 0, posted = False\<rparr>)"

definition set_menu_fore :: "MENU option \<Rightarrow> int \<Rightarrow> MENU option" where
  "set_menu_fore m attr = map_option (\<lambda>mn. mn\<lparr>menu_fore := attr\<rparr>) m"

definition post_menu :: "MENU option \<Rightarrow> MENU option" where
  "post_menu m =
     map_option
       (\<lambda>mn. mn\<lparr>posted := (item_names mn \<noteq> [] \<and> 0 < nitems mn \<and> 0 < namelen mn)\<rparr>) m"

fun menu_driver :: "MENU option \<Rightarrow> menu_request \<Rightarrow> MENU option" where
  "menu_driver None r = None"
| "menu_driver (Some m) REQ_DOWN_ITEM =
     (if posted m \<and> curitem m + 1 < nitems m
      then Some (m\<lparr>curitem := curitem m + 1\<rparr>) else Some m)"
| "menu_driver (Some m) REQ_UP_ITEM =
     (if posted m \<and> 0 < curitem m then Some (m\<lparr>curitem := curitem m - 1\<rparr>) else Some m)"

definition current_item :: "MENU option \<Rightarrow> int option" where
  "current_item m =
     (case m of
        None \<Rightarrow> None
      | Some mn \<Rightarrow> if item_names mn = [] then None else Some (curitem mn))"

definition item_index :: "int option \<Rightarrow> int" where
  "item_index it = (case it of None \<Rightarrow> - 1 | Some i \<Rightarrow> i)"

record menu_t =
  window :: WINDOW
  menu :: "MENU option"
  items :: "string option list"
  choices :: choices_t

definition menu_get_selected_item :: "menu_t \<Rightarrow> fault + iso_data_t option" where
  "menu_get_selected_item m =
     (let idx = item_index (current_item (menu m))
      in array_get (values_a (choices m)) idx)"

text \<open>
  The two loops of \<^verbatim>\<open>menu_create\<close>:
  \<^verbatim>\<open>longest = MAX(longest, (int)strlen(choices->values[i]->label));\<close> and
  \<^verbatim>\<open>ret->items[i] = button_item(choices->values[i]->label, longest);\<close>
  The array of items has \<^verbatim>\<open>len + 1\<close> slots, all \<^verbatim>\<open>NULL\<close> at first, and the loop
  stores what \<^verbatim>\<open>button_item\<close> returns, \<^verbatim>\<open>NULL\<close> or not. The window is what \<^verbatim>\<open>newwin\<close>
  returns, \<^verbatim>\<open>NULL\<close> or not. The calls that attach the window to the menu and clear
  the mark do not change the items or the current item. Allocations in
  \<^verbatim>\<open>menu_create\<close> are taken to succeed.
\<close>

function longest_loop :: "choices_t \<Rightarrow> int \<Rightarrow> int \<Rightarrow> fault + int" where
  "longest_loop c i longest =
     (if i < len c then
        (case choice_at c i of
           Inl e \<Rightarrow> Inl e
         | Inr d \<Rightarrow> longest_loop c (i + 1) (max longest (int (length (label d)))))
      else Inr longest)"
  by pat_completeness auto
termination
  by (relation "measure (\<lambda>(c, i, longest). nat (len c - i))") auto

function items_loop ::
  "(nat \<Rightarrow> bool) \<Rightarrow> choices_t \<Rightarrow> int \<Rightarrow> int \<Rightarrow> string option list
     \<Rightarrow> fault + string option list" where
  "items_loop wp c longest i its =
     (if i < len c then
        (case choice_at c i of
           Inl e \<Rightarrow> Inl e
         | Inr d \<Rightarrow>
             (case array_set its i (button_item wp (label d) longest) of
                Inl e \<Rightarrow> Inl e
              | Inr its' \<Rightarrow> items_loop wp c longest (i + 1) its'))
      else Inr its)"
  by pat_completeness auto
termination
  by (relation "measure (\<lambda>(wp, c, longest, i, its). nat (len c - i))") auto

definition menu_create ::
  "(nat \<Rightarrow> bool) \<Rightarrow> (nat \<Rightarrow> int) \<Rightarrow> int \<Rightarrow> int \<Rightarrow> resources_t \<Rightarrow> choices_t
     \<Rightarrow> fault + menu_t" where
  "menu_create wp ww LINES COLS resources chs =
     (case longest_loop chs 0 0 of
        Inl e \<Rightarrow> Inl e
      | Inr longest \<Rightarrow>
          (case items_loop wp chs longest 0 (replicate (nat (len chs + 1)) None) of
             Inl e \<Rightarrow> Inl e
           | Inr its \<Rightarrow>
               (let width = longest + 6;
                    center_x = horizontal_center COLS width;
                    center_y = vertical_center LINES (len chs)
                in Inr \<lparr>window = newwin LINES COLS (len chs) width center_y center_x,
                        menu = post_menu (set_menu_fore (new_menu ww its)
                                            (white_green resources)),
                        items = its,
                        choices = chs\<rparr>)))"

section \<open>The selection loop of \<^verbatim>\<open>main\<close>\<close>

text \<open>Key codes of \<^verbatim>\<open>ncurses.h\<close> (octal 0402, 0403, 0527) and of ASCII.\<close>

definition KEY_DOWN :: int where "KEY_DOWN = 258"
definition KEY_UP :: int where "KEY_UP = 259"
definition KEY_ENTER :: int where "KEY_ENTER = 343"

text \<open>
  One pass through the body of \<^verbatim>\<open>while(continuing)\<close> with the key \<^verbatim>\<open>wgetch\<close>
  returned: the menu after it and the new value of \<^verbatim>\<open>continuing\<close>.
\<close>

definition loop_body :: "menu_t \<Rightarrow> int \<Rightarrow> menu_t \<times> bool" where
  "loop_body m ch =
     (if ch = KEY_DOWN then (m\<lparr>menu := menu_driver (menu m) REQ_DOWN_ITEM\<rparr>, True)
      else if ch = KEY_UP then (m\<lparr>menu := menu_driver (menu m) REQ_UP_ITEM\<rparr>, True)
      else if ch = KEY_ENTER \<or> ch = 13 \<or> ch = 10 \<or> ch = 32 then (m, False)
      else (m, True))"

text \<open>
  The loop over the values that \<^verbatim>\<open>wgetch\<close> returns, in order: the keys, and \<^verbatim>\<open>ERR\<close>
  (-1) when it fails. On a window \<^verbatim>\<open>wgetch\<close> blocks until a key arrives: when the
  values run out before \<^verbatim>\<open>continuing\<close> is cleared the loop has not ended, which is
  \<open>None\<close>.
\<close>

fun select_loop :: "menu_t \<Rightarrow> int list \<Rightarrow> menu_t option" where
  "select_loop m [] = None"
| "select_loop m (ch # chs) =
     (case loop_body m ch of
        (m', continuing) \<Rightarrow> if continuing then select_loop m' chs else Some m')"

section \<open>Colours\<close>

text \<open>
  \<^verbatim>\<open>color_byte_to_ncurses\<close> computes \<^verbatim>\<open>color_byte / 255.0 * 1000\<close> in \<^verbatim>\<open>double\<close> and
  converts the result to \<^verbatim>\<open>int\<close>. \<^verbatim>\<open>double\<close> is IEEE 754 binary64, each operation
  rounded to nearest with ties to even and evaluated in \<^verbatim>\<open>double\<close> itself. The
  model covers the finite values that are not negative, which is all this
  computation meets: a value is \<open>m * 2 ^ e\<close>, given as the pair \<open>(m, e)\<close>, with
  \<open>m = 0\<close> or \<open>2 ^ 52 \<le> m < 2 ^ 53\<close>. The exponents stay far inside the range of
  binary64, so there is neither overflow nor a subnormal result.
\<close>

type_synonym double = "int \<times> int"

text \<open>The number of binary digits of a positive integer.\<close>

function bit_length :: "int \<Rightarrow> int" where
  "bit_length n = (if n \<le> 0 then 0 else 1 + bit_length (n div 2))"
  by pat_completeness auto
termination
  by (relation "measure nat") auto

text \<open>The integer nearest to \<open>p / q\<close> for \<open>0 \<le> p\<close> and \<open>0 < q\<close>; of two nearest, the even one.\<close>

definition round_half_even :: "int \<Rightarrow> int \<Rightarrow> int" where
  "round_half_even p q =
     (if 2 * (p mod q) < q then p div q
      else if q < 2 * (p mod q) then p div q + 1
      else if even (p div q) then p div q else p div q + 1)"

text \<open>A mantissa that rounding carried up to \<open>2 ^ 53\<close> is \<open>2 ^ 52\<close> at the next exponent.\<close>

definition pack_double :: "int \<Rightarrow> int \<Rightarrow> double" where
  "pack_double m e = (if m = 2 ^ 53 then (2 ^ 52, e + 1) else (m, e))"

text \<open>
  \<open>round_double p q e\<close> is the binary64 value nearest to \<open>p / q * 2 ^ e\<close>. The
  quotient is first scaled by a power of two into \<open>[2 ^ 52, 2 ^ 54)\<close>, from the
  lengths of \<open>p\<close> and \<open>q\<close>, then into \<open>[2 ^ 52, 2 ^ 53)\<close>, and rounded there.
\<close>

definition round_scaled :: "int \<Rightarrow> int \<Rightarrow> int \<Rightarrow> double" where
  "round_scaled p q e =
     (if 2 ^ 53 * q \<le> p then pack_double (round_half_even p (2 * q)) (e + 1)
      else pack_double (round_half_even p q) e)"

definition round_shift :: "int \<Rightarrow> int \<Rightarrow> int \<Rightarrow> int \<Rightarrow> double" where
  "round_shift p q e k =
     (if 0 \<le> k then round_scaled (p * 2 ^ nat k) q (e - k)
      else round_scaled p (q * 2 ^ nat (- k)) (e - k))"

definition round_double :: "int \<Rightarrow> int \<Rightarrow> int \<Rightarrow> double" where
  "round_double p q e =
     (if p = 0 then (0, 0) else round_shift p q e (53 + bit_length q - bit_length p))"

definition double_of_int :: "int \<Rightarrow> double" where
  "double_of_int n = round_double n 1 0"

definition double_div :: "double \<Rightarrow> double \<Rightarrow> double" where
  "double_div x y = round_double (fst x) (fst y) (snd x - snd y)"

definition double_mul :: "double \<Rightarrow> double \<Rightarrow> double" where
  "double_mul x y = round_double (fst x * fst y) 1 (snd x + snd y)"

text \<open>Conversion to \<^verbatim>\<open>int\<close> drops the fraction.\<close>

definition int_of_double :: "double \<Rightarrow> int" where
  "int_of_double x =
     (if 0 \<le> snd x then fst x * 2 ^ nat (snd x) else fst x div 2 ^ nat (- snd x))"

text \<open>
  \<^verbatim>\<open>color_byte / 255.0 * 1000\<close> on the value of the byte, and on the byte itself. The
  byte is promoted to \<^verbatim>\<open>int\<close> and converted to \<^verbatim>\<open>double\<close>, as is \<^verbatim>\<open>1000\<close>.
\<close>

definition color_value_to_ncurses :: "int \<Rightarrow> int" where
  "color_value_to_ncurses n =
     int_of_double
       (double_mul (double_div (double_of_int n) (double_of_int 255)) (double_of_int 1000))"

definition color_byte_to_ncurses :: "8 word \<Rightarrow> int" where
  "color_byte_to_ncurses color_byte = color_value_to_ncurses (uint color_byte)"

definition init_color_from_bytes :: "int \<Rightarrow> 8 word \<Rightarrow> 8 word \<Rightarrow> 8 word \<Rightarrow> curses_op list" where
  "init_color_from_bytes color byte_r byte_g byte_b =
     (let nc_r = color_byte_to_ncurses byte_r;
          nc_g = color_byte_to_ncurses byte_g;
          nc_b = color_byte_to_ncurses byte_b
      in [InitColor color nc_r nc_g nc_b])"

text \<open>
  \<^verbatim>\<open>resources_create\<close>: the colour numbers (\<^verbatim>\<open>COLOR_RED\<close> 1, \<^verbatim>\<open>COLOR_WHITE\<close> 7,
  \<^verbatim>\<open>COLOR_GREEN\<close> 2, \<^verbatim>\<open>COLOR_BLACK\<close> 0, redefined when the terminal can change
  colours, and codes of the 256-colour palette otherwise) and the three colour pairs.
\<close>

definition resources_create :: "bool \<Rightarrow> resources_t \<times> curses_op list" where
  "resources_create can_change_color =
     (let r0 = \<lparr>ubuntu_orange = 1, text_white = 7, back_green = 2, black = 0,
                black_orange = 0, white_orange = 0, white_green = 0\<rparr>;
          r1 = (if can_change_color then r0
                else r0\<lparr>ubuntu_orange := 202, text_white := 231, back_green := 28, black := 0\<rparr>);
          ops1 = (if can_change_color then
                    init_color_from_bytes (ubuntu_orange r0) 0xE9 0x54 0x20
                    @ init_color_from_bytes (text_white r0) 0xFF 0xFF 0xFF
                    @ init_color_from_bytes (back_green r0) 0x0E 0x84 0x20
                    @ init_color_from_bytes (black r0) 0x00 0x00 0x00
                  else []);
          r2 = r1\<lparr>black_orange := 1, white_orange := 2, white_green := 3\<rparr>
      in (r2, ops1 @ [InitPair 1 (black r2) (ubuntu_orange r2),
                      InitPair 2 (text_white r2) (ubuntu_orange r2),
                      InitPair 3 (text_white r2) (back_green r2)]))"

section \<open>The result file: \<^verbatim>\<open>write_output\<close>\<close>

text \<open>
  The files are a map from path to content. \<^verbatim>\<open>fopen(fname, "w")\<close> creates the file or
  cuts it to length zero; whether it succeeds is the environment's \<open>can_open\<close>.
  \<^verbatim>\<open>fprintf\<close> appends to the content; main.c does not look at what it returns.
  \<^verbatim>\<open>%s\<close> writes the bytes of the string, \<^verbatim>\<open>PRId64\<close> the signed decimal digits of
  the 64-bit value.
\<close>

type_synonym files = "string \<rightharpoonup> string"

definition fopen_w :: "files \<Rightarrow> string \<Rightarrow> files" where
  "fopen_w fs path = fs(path \<mapsto> [])"

definition fprintf :: "files \<Rightarrow> string \<Rightarrow> string \<Rightarrow> files" where
  "fprintf fs path s = fs(path \<mapsto> (case fs path of None \<Rightarrow> s | Some old \<Rightarrow> old @ s))"

function dec_digits :: "nat \<Rightarrow> string" where
  "dec_digits n =
     (if n < 10 then [''0123456789'' ! n]
      else dec_digits (n div 10) @ [''0123456789'' ! (n mod 10)])"
  by pat_completeness auto
termination
  by (relation "measure id") auto

definition fmt_PRId64 :: "64 word \<Rightarrow> string" where
  "fmt_PRId64 v =
     (if sint v < 0 then CHR ''-'' # dec_digits (nat (- sint v)) else dec_digits (nat (sint v)))"

definition dquote :: char where "dquote = CHR 0x22"

definition newline :: char where "newline = CHR 0x0A"

text \<open>
  \<^verbatim>\<open>write_output\<close> ends the program with \<^verbatim>\<open>exit(1)\<close> when the file cannot be opened,
  and follows the pointer \<^verbatim>\<open>iso_data\<close> after opening it. The first component is how
  the program stopped inside \<^verbatim>\<open>write_output\<close>, \<open>None\<close> when it returned.
\<close>

definition write_output ::
  "(string \<Rightarrow> bool) \<Rightarrow> string \<Rightarrow> iso_data_t option \<Rightarrow> files \<Rightarrow> stop option \<times> files" where
  "write_output can_open fname iso_data fs =
     (if \<not> can_open fname then (Some (Exit 1), fs)
      else
        (let f0 = fopen_w fs fname in
         case iso_data of
           None \<Rightarrow> (Some (Crash NullDeref), f0)
         | Some d \<Rightarrow>
             (let f1 = fprintf f0 fname (''MEDIA_URL='' @ [dquote] @ url d @ [dquote, newline]);
                  f2 = fprintf f1 fname (''MEDIA_LABEL='' @ [dquote] @ label d @ [dquote, newline]);
                  f3 = fprintf f2 fname
                         (''MEDIA_256SUM='' @ [dquote] @ sha256sum d @ [dquote, newline]);
                  f4 = fprintf f3 fname
                         (''MEDIA_SIZE='' @ [dquote] @ fmt_PRId64 (size_b d) @ [dquote, newline])
              in (None, f4))))"

section \<open>\<^verbatim>\<open>main\<close>\<close>

text \<open>
  What \<^verbatim>\<open>main\<close> meets outside itself: the result of \<^verbatim>\<open>args_create\<close>, the Feed
  Reader, the answers of ncurses, the size of the terminal, the locale's tables of
  printable characters and of widths, the keys pressed and the files. On the \<^verbatim>\<open>NULL\<close> window
  \<^verbatim>\<open>wgetch\<close> returns \<^verbatim>\<open>ERR\<close> at once and reads no key, so the loop runs for ever.
  What a run leaves: how it stopped, the files, the calls to the Feed Reader and
  the calls to ncurses that set colours and draw the banner. The messages to
  \<^verbatim>\<open>syslog\<close>, the terminal modes and the clean-up at exit do not change any of these
  and are left out.
\<close>

record world =
  prog :: string
  args_created :: "args_t option"
  alloc_ok :: bool
  get_newest_iso :: feed_reader
  ARCH :: string
  initscr_ok :: bool
  has_colors :: bool
  start_color_ok :: bool
  can_change_color :: bool
  LINES :: int
  COLS :: int
  iswprint_wide :: "nat \<Rightarrow> bool"
  wcwidth_wide :: "nat \<Rightarrow> int"
  keys :: "int list"
  can_open :: "string \<Rightarrow> bool"
  files_before :: files

record run =
  status :: stop
  files_after :: files
  reader_calls :: call_log
  screen :: "curses_op list"

text \<open>\<^verbatim>\<open>usage\<close> prints the usage line to \<^verbatim>\<open>stderr\<close> and calls \<^verbatim>\<open>exit(1)\<close>.\<close>

definition usage :: "string \<Rightarrow> stop" where
  "usage pr = Exit 1"

definition main_caption :: string where
  "main_caption = ''Choose an Ubuntu version to install''"

definition main :: "world \<Rightarrow> run" where
  "main w =
     (case args_created w of
        None \<Rightarrow>
          \<lparr>status = usage (prog w), files_after = files_before w,
           reader_calls = [], screen = []\<rparr>
      | Some args \<Rightarrow>
          (case read_iso_choices (alloc_ok w) (get_newest_iso w) (ARCH w) args of
             Inl e \<Rightarrow>
               \<lparr>status = Crash e, files_after = files_before w,
                reader_calls = [], screen = []\<rparr>
           | Inr (calls, None) \<Rightarrow>
               \<lparr>status = Exit 1, files_after = files_before w,
                reader_calls = calls, screen = []\<rparr>
           | Inr (calls, Some iso_info) \<Rightarrow>
               (if \<not> initscr_ok w then
                  \<lparr>status = Exit 1, files_after = files_before w,
                   reader_calls = calls, screen = []\<rparr>
                else if \<not> has_colors w then
                  \<lparr>status = Exit 1, files_after = files_before w,
                   reader_calls = calls, screen = []\<rparr>
                else if \<not> start_color_ok w then
                  \<lparr>status = Exit 1, files_after = files_before w,
                   reader_calls = calls, screen = []\<rparr>
                else
                  (case resources_create (can_change_color w) of
                     (resources, ops) \<Rightarrow>
                       (let scr = ops @ top_banner (COLS w) resources main_caption in
                        case menu_create (iswprint_wide w) (wcwidth_wide w) (LINES w) (COLS w)
                               resources iso_info of
                          Inl e \<Rightarrow>
                            \<lparr>status = Crash e, files_after = files_before w,
                             reader_calls = calls, screen = scr\<rparr>
                        | Inr m \<Rightarrow>
                            (case (if is_null (window m) then None
                                   else select_loop m (keys w)) of
                               None \<Rightarrow>
                                 \<lparr>status = Blocked, files_after = files_before w,
                                  reader_calls = calls, screen = scr\<rparr>
                             | Some m' \<Rightarrow>
                                 (case menu_get_selected_item m' of
                                    Inl e \<Rightarrow>
                                      \<lparr>status = Crash e, files_after = files_before w,
                                       reader_calls = calls, screen = scr\<rparr>
                                  | Inr sel \<Rightarrow>
                                      (case write_output (can_open w) (outfile args) sel
                                              (files_before w) of
                                         (Some st, fs) \<Rightarrow>
                                           \<lparr>status = st, files_after = fs,
                                            reader_calls = calls, screen = scr\<rparr>
                                       | (None, fs) \<Rightarrow>
                                           \<lparr>status = Exit 0, files_after = fs,
                                            reader_calls = calls, screen = scr\<rparr>))))))))"

section \<open>Notions the properties are stated with\<close>

text \<open>
  A choice set as \<^verbatim>\<open>read_iso_choices\<close> leaves it when every feed was read: \<^verbatim>\<open>len\<close>
  slots, none of them \<^verbatim>\<open>NULL\<close>; its labels, in order; the length of the longest
  of some labels, 0 when there is none.
\<close>

definition choices_ok :: "choices_t \<Rightarrow> bool" where
  "choices_ok c = (len c = int (length (values_a c)) \<and> None \<notin> set (values_a c))"

definition labels_of :: "choices_t \<Rightarrow> string list" where
  "labels_of c = map (\<lambda>p. label (the p)) (values_a c)"

definition widest_label :: "string list \<Rightarrow> nat" where
  "widest_label ls = Max (set (0 # map length ls))"

text \<open>
  A label of printable ASCII characters; a choice set for every label of which
  \<^verbatim>\<open>button_item\<close> returns an item and not \<^verbatim>\<open>NULL\<close>; and the number of screen columns a
  string takes when ncurses writes it, the sum of the widths of its characters.
\<close>

definition printable_ascii :: "string \<Rightarrow> bool" where
  "printable_ascii s = list_all (\<lambda>ch. 0x20 \<le> (of_char ch :: nat) \<and> (of_char ch :: nat) < 0x7F) s"

definition buttons_accepted :: "(nat \<Rightarrow> bool) \<Rightarrow> choices_t \<Rightarrow> bool" where
  "buttons_accepted wp c =
     list_all (\<lambda>l. button_item wp l (int (widest_label (labels_of c))) \<noteq> None) (labels_of c)"


text \<open>
  The index \<^verbatim>\<open>menu_get_selected_item\<close> reads, the menu after some keys have gone
  through the body of the loop, and the keys that clear \<^verbatim>\<open>continuing\<close>.
\<close>

definition highlighted :: "menu_t \<Rightarrow> int" where
  "highlighted m = item_index (current_item (menu m))"

definition after_keys :: "menu_t \<Rightarrow> int list \<Rightarrow> menu_t" where
  "after_keys m chs = foldl (\<lambda>m' ch. fst (loop_body m' ch)) m chs"

definition commit_key :: "int \<Rightarrow> bool" where
  "commit_key ch = (ch = KEY_ENTER \<or> ch = 13 \<or> ch = 10 \<or> ch = 32)"

text \<open>The number that a string of decimal digits denotes.\<close>

definition dec_value :: "string \<Rightarrow> nat" where
  "dec_value s = foldl (\<lambda>a c. 10 * a + (of_char c - 48)) 0 s"

text \<open>That the conversion of the value \<open>n\<close> is the exact quotient, cut to an integer.\<close>

definition color_value_exact :: "int \<Rightarrow> bool" where
  "color_value_exact n = (color_value_to_ncurses n = (1000 * n) div 255)"

text \<open>
  The real number a pair \<open>(m, e)\<close> stands for, and what binary64 asks of the result
  \<open>x\<close> of an operation whose exact result is \<open>v\<close>: a mantissa of 53 bits and an
  error of at most half a unit in the last place.
\<close>

definition double_value :: "double \<Rightarrow> real" where
  "double_value x = real_of_int (fst x) * 2 powi (snd x)"

definition nearest_double :: "real \<Rightarrow> double \<Rightarrow> bool" where
  "nearest_double v x =
     (2 ^ 52 \<le> fst x \<and> fst x < 2 ^ 53 \<and> \<bar>v - double_value x\<bar> \<le> 2 powi (snd x) / 2)"

section \<open>Concrete inputs\<close>

text \<open>
  Two feeds whose newest images are a server and a desktop image, a third file that
  the Feed Reader cannot read, and a terminal of 24 lines and 80 columns. Of the
  locale's tables the examples read two code points beyond ASCII, the arrow U+25B8
  and the letter U+00E9: both are printable and one column wide.
\<close>

definition sample_iswprint :: "nat \<Rightarrow> bool" where
  "sample_iswprint cp = (cp = 0x25B8 \<or> cp = 0xE9)"

definition sample_wcwidth :: "nat \<Rightarrow> int" where
  "sample_wcwidth cp = (if cp = 0x25B8 \<or> cp = 0xE9 then 1 else - 1)"

definition server_iso :: iso_data_t where
  "server_iso =
     \<lparr>url = ''https://releases.ubuntu.com/24.04/ubuntu-24.04-live-server-amd64.iso'',
      label = ''Ubuntu Server 24.04'',
      sha256sum = ''8762f7e74e4d64d72fceb5f70682e6b069932deedb4949c6975d0f0fe0a91be3'',
      size_b = 2754981888\<rparr>"

definition desktop_iso :: iso_data_t where
  "desktop_iso =
     \<lparr>url = ''https://releases.ubuntu.com/24.04/ubuntu-24.04-desktop-amd64.iso'',
      label = ''Ubuntu Desktop 24.04'',
      sha256sum = ''81fae9cc21e2b1e3a9a4526c7dad3131b668e346c580702235ad4d02645d9455'',
      size_b = 6114656256\<rparr>"

definition sample_reader :: feed_reader where
  "sample_reader file a =
     (if file = ''server.json'' then Some server_iso
      else if file = ''desktop.json'' then Some desktop_iso
      else None)"

definition sample_args :: args_t where
  "sample_args = \<lparr>outfile = ''/run/media-info'', num_infiles = 2,
                   infiles = [''server.json'', ''desktop.json'']\<rparr>"

definition failing_args :: args_t where
  "failing_args = \<lparr>outfile = ''/run/media-info'', num_infiles = 2,
                    infiles = [''missing.json'', ''desktop.json'']\<rparr>"

definition sample_choices :: choices_t where
  "sample_choices = \<lparr>len = 2, values_a = [Some server_iso, Some desktop_iso]\<rparr>"

definition sample_world :: world where
  "sample_world =
     \<lparr>prog = ''iso-chooser-menu'', args_created = Some sample_args, alloc_ok = True,
      get_newest_iso = sample_reader, ARCH = ''amd64'',
      initscr_ok = True, has_colors = True, start_color_ok = True,
      can_change_color = False, LINES = 24, COLS = 80,
      iswprint_wide = sample_iswprint, wcwidth_wide = sample_wcwidth,
      keys = [KEY_DOWN, 10], can_open = (\<lambda>path. True),
      files_before = Map.empty\<rparr>"

definition failing_world :: world where
  "failing_world = sample_world\<lparr>args_created := Some failing_args\<rparr>"

text \<open>The menu that \<^verbatim>\<open>menu_create\<close> builds for the two images on that terminal.\<close>

definition sample_menu :: menu_t where
  "sample_menu =
     \<lparr>window = \<lparr>nlines = 2, ncols = 26, begin_y = 12, begin_x = 27, is_null = False\<rparr>,
      menu = Some \<lparr>item_names = [''[ Ubuntu Server 24.04  '' @ utf8_25b8 @ '' ]'',
                                 ''[ Ubuntu Desktop 24.04 '' @ utf8_25b8 @ '' ]''],
                   nitems = 2, namelen = 26, curitem = 0, menu_fore = 3, posted = True\<rparr>,
      items = [Some (''[ Ubuntu Server 24.04  '' @ utf8_25b8 @ '' ]''),
               Some (''[ Ubuntu Desktop 24.04 '' @ utf8_25b8 @ '' ]''), None],
      choices = sample_choices\<rparr>"

text \<open>
  Three records whose second label holds a TAB, with the menu that \<^verbatim>\<open>menu_create\<close>
  builds for them: \<^verbatim>\<open>new_item\<close> returns \<^verbatim>\<open>NULL\<close> for the second button, and the menu
  has the first item only.
\<close>

definition tab_choices :: choices_t where
  "tab_choices =
     \<lparr>len = 3,
      values_a = [Some (server_iso\<lparr>label := ''c''\<rparr>),
                  Some (server_iso\<lparr>label := [CHR ''a'', CHR 0x09, CHR ''b'']\<rparr>),
                  Some (server_iso\<lparr>label := ''d''\<rparr>)]\<rparr>"

definition tab_menu :: menu_t where
  "tab_menu =
     \<lparr>window = \<lparr>nlines = 3, ncols = 9, begin_y = 12, begin_x = 35, is_null = False\<rparr>,
      menu = Some \<lparr>item_names = [''[ c   '' @ utf8_25b8 @ '' ]''],
                   nitems = 1, namelen = 9, curitem = 0, menu_fore = 3, posted = True\<rparr>,
      items = [Some (''[ c   '' @ utf8_25b8 @ '' ]''), None,
               Some (''[ d   '' @ utf8_25b8 @ '' ]''), None],
      choices = tab_choices\<rparr>"



section \<open>Properties of \<^verbatim>\<open>read_iso_choices\<close>\<close>

lemma read_iso_loop_unfold:
  "read_iso_loop gni arch args i calls chs =
     (if i < num_infiles args then
        (case array_get (infiles args) i of
           Inl e \<Rightarrow> Inl e
         | Inr f \<Rightarrow>
             (case array_set (values_a chs) i (gni f arch) of
                Inl e \<Rightarrow> Inl e
              | Inr vs \<Rightarrow>
                  read_iso_loop gni arch args (i + 1) (calls @ [(f, arch)])
                    (chs\<lparr>values_a := vs\<rparr>)))
      else Inr (calls, chs))"
  by (rule read_iso_loop.simps)

declare read_iso_loop.simps [simp del]

lemma read_iso_loop_from:
  assumes "args_ok args" and "length (values_a chs) = length (infiles args)"
    and "k \<le> length (infiles args)"
  shows "read_iso_loop gni arch args (int k) calls chs =
           Inr (calls @ map (\<lambda>f. (f, arch)) (drop k (infiles args)),
                chs\<lparr>values_a := take k (values_a chs)
                                      @ map (\<lambda>f. gni f arch) (drop k (infiles args))\<rparr>)"
  using assms
proof (induction "length (infiles args) - k" arbitrary: k calls chs)
  case 0
  then have k: "k = length (infiles args)" by simp
  then have "\<not> int k < num_infiles args"
    using "0.prems"(1) by (simp add: args_ok_def)
  then show ?case
    using k "0.prems"(2) by (subst read_iso_loop_unfold) simp
next
  case (Suc n)
  then have lt: "k < length (infiles args)" by simp
  let ?f = "infiles args ! k"
  let ?c = "chs\<lparr>values_a := (values_a chs)[k := gni ?f arch]\<rparr>"
  have step: "read_iso_loop gni arch args (int k) calls chs =
                read_iso_loop gni arch args (int (Suc k)) (calls @ [(?f, arch)]) ?c"
    using lt Suc.prems(1,2)
    by (subst read_iso_loop_unfold)
      (simp add: args_ok_def array_get_def array_set_def add.commute)
  have ih: "read_iso_loop gni arch args (int (Suc k)) (calls @ [(?f, arch)]) ?c =
              Inr ((calls @ [(?f, arch)]) @ map (\<lambda>f. (f, arch)) (drop (Suc k) (infiles args)),
                   ?c\<lparr>values_a := take (Suc k) (values_a ?c)
                                   @ map (\<lambda>f. gni f arch) (drop (Suc k) (infiles args))\<rparr>)"
    using Suc.hyps(2) lt Suc.prems(1,2) by (intro Suc.hyps(1)) simp_all
  have d: "drop k (infiles args) = ?f # drop (Suc k) (infiles args)"
    using lt by (simp add: Cons_nth_drop_Suc)
  have t: "take (Suc k) ((values_a chs)[k := gni ?f arch]) =
             take k (values_a chs) @ [gni ?f arch]"
    using lt Suc.prems(2) by (simp add: take_Suc_conv_app_nth)
  show ?case
    unfolding step ih by (simp add: d t)
qed

lemma read_iso_choices_eq:
  assumes "args_ok args"
  shows "read_iso_choices True gni arch args =
           Inr (map (\<lambda>f. (f, arch)) (infiles args),
                Some \<lparr>len = num_infiles args,
                      values_a = map (\<lambda>f. gni f arch) (infiles args)\<rparr>)"
proof -
  let ?c = "\<lparr>len = num_infiles args, values_a = replicate (length (infiles args)) None\<rparr>"
  have "read_iso_loop gni arch args (int 0) [] ?c =
          Inr ([] @ map (\<lambda>f. (f, arch)) (drop 0 (infiles args)),
               ?c\<lparr>values_a := take 0 (values_a ?c)
                               @ map (\<lambda>f. gni f arch) (drop 0 (infiles args))\<rparr>)"
    using assms by (intro read_iso_loop_from) simp_all
  then show ?thesis
    using assms by (simp add: read_iso_choices_def choices_create_def args_ok_def)
qed

text \<open>
  C5. When the choice set can be allocated and the parsed arguments hold as many file
  names as they say, \<^verbatim>\<open>read_iso_choices\<close> calls the Feed Reader once for each input
  file, in the order of the files, and returns a choice set with one slot for each
  file, the \<open>i\<close>-th slot holding what the Feed Reader returned for the \<open>i\<close>-th file.
\<close>

theorem read_iso_choices_one_record_per_feed:
  assumes "args_ok args"
  shows "\<exists>c. read_iso_choices True gni arch args
                 = Inr (map (\<lambda>f. (f, arch)) (infiles args), Some c)
             \<and> len c = int (length (infiles args))
             \<and> length (values_a c) = length (infiles args)
             \<and> (\<forall>i < length (infiles args). values_a c ! i = gni (infiles args ! i) arch)"
  using assms by (simp add: read_iso_choices_eq args_ok_def)

theorem read_iso_choices_one_record_per_feed_witness:
  "args_ok sample_args
   \<and> (\<exists>c. read_iso_choices True sample_reader ''amd64'' sample_args
              = Inr ([(''server.json'', ''amd64''), (''desktop.json'', ''amd64'')], Some c)
          \<and> len c = 2
          \<and> values_a c ! 0 = Some server_iso
          \<and> values_a c ! 1 = Some desktop_iso)"
proof -
  have ok: "args_ok sample_args"
    by (simp add: args_ok_def sample_args_def)
  from read_iso_choices_one_record_per_feed [OF ok, of sample_reader "''amd64''"]
  obtain c where c: "read_iso_choices True sample_reader ''amd64'' sample_args
                 = Inr (map (\<lambda>f. (f, ''amd64'')) (infiles sample_args), Some c)"
    "len c = int (length (infiles sample_args))"
    "\<forall>i < length (infiles sample_args). values_a c ! i = sample_reader (infiles sample_args ! i) ''amd64''"
    by blast
  have "values_a c ! 0 = Some server_iso" "values_a c ! 1 = Some desktop_iso"
    using c(3) by (simp_all add: sample_args_def sample_reader_def)
  then show ?thesis
    using ok c(1,2) by (simp add: sample_args_def)
qed

text \<open>
  C2. The loop of \<^verbatim>\<open>read_iso_choices\<close> does not look at what the Feed Reader
  returns. With a first file that cannot be read and a second one that can, the
  Feed Reader is called for both, and the caller receives a choice set, not \<^verbatim>\<open>NULL\<close>,
  whose first slot is \<^verbatim>\<open>NULL\<close>.
\<close>

theorem read_iso_choices_continues_after_failure:
  "read_iso_choices True sample_reader ''amd64'' failing_args
     = Inr ([(''missing.json'', ''amd64''), (''desktop.json'', ''amd64'')],
            Some \<lparr>len = 2, values_a = [None, Some desktop_iso]\<rparr>)"
proof -
  have "args_ok failing_args"
    by (simp add: args_ok_def failing_args_def)
  then show ?thesis
    by (simp add: read_iso_choices_eq) (simp add: failing_args_def sample_reader_def)
qed

section \<open>Properties of \<^verbatim>\<open>write_output\<close>\<close>

declare dec_digits.simps [simp del]

lemma digit_char_value: "n < 10 \<Longrightarrow> (of_char (''0123456789'' ! n) :: nat) = 48 + n"
proof -
  assume "n < 10"
  then have "n \<in> {0, 1, 2, 3, 4, 5, 6, 7, 8, 9}" by auto
  then show ?thesis by auto
qed

lemma dec_value_snoc: "dec_value (s @ [c]) = 10 * dec_value s + (of_char c - 48)"
  by (simp add: dec_value_def)

lemma dec_value_dec_digits: "dec_value (dec_digits n) = n"
proof (induction n rule: dec_digits.induct)
  case (1 n)
  show ?case
  proof (cases "n < 10")
    case True
    then show ?thesis
      by (subst dec_digits.simps) (simp add: dec_value_def digit_char_value)
  next
    case False
    then have "dec_value (dec_digits (n div 10)) = n div 10" using 1 by simp
    then show ?thesis
      using False
      by (subst dec_digits.simps) (simp add: dec_value_snoc digit_char_value)
  qed
qed

lemma sint_nonneg_unat: "0 \<le> sint (w::64 word) \<Longrightarrow> nat (sint w) = unat w"
proof -
  assume a: "0 \<le> sint w"
  have "sint w < 2 ^ 63"
    using sint_lt [of w] by simp
  then have "sint w < 2 ^ 64" by simp
  then have "take_bit 64 (sint w) = sint w"
    using a by (simp add: take_bit_int_eq_self)
  then have "uint w = sint w"
    using uint_sint [of w] by simp
  then show ?thesis by (metis unat_eq_nat_uint)
qed

lemma fprintf_fopen: "fprintf (fs(path \<mapsto> old)) path s = fs(path \<mapsto> old @ s)"
  by (simp add: fprintf_def)

text \<open>
  C3. When the file can be opened, \<^verbatim>\<open>write_output\<close> returns and leaves in it exactly
  the four lines \<^verbatim>\<open>MEDIA_URL\<close>, \<^verbatim>\<open>MEDIA_LABEL\<close>, \<^verbatim>\<open>MEDIA_256SUM\<close> and
  \<^verbatim>\<open>MEDIA_SIZE\<close>, in this order, each value between double quotes and each line ended
  by a newline, whatever the file held before; no other file changes. Writing a
  second record to the same path leaves only the second record's lines. The size is
  written in decimal: read back as a number, the digits of a size that is not
  negative give the size.
\<close>

theorem write_output_four_lines:
  assumes "may_open fname"
  shows "write_output may_open fname (Some d) fs =
           (None, fs(fname \<mapsto>
              ''MEDIA_URL='' @ [dquote] @ url d @ [dquote, newline]
              @ ''MEDIA_LABEL='' @ [dquote] @ label d @ [dquote, newline]
              @ ''MEDIA_256SUM='' @ [dquote] @ sha256sum d @ [dquote, newline]
              @ ''MEDIA_SIZE='' @ [dquote] @ fmt_PRId64 (size_b d) @ [dquote, newline]))
         \<and> write_output may_open fname (Some d)
               (snd (write_output may_open fname (Some d') fs))
             = write_output may_open fname (Some d) fs
         \<and> (0 \<le> sint (size_b d) \<longrightarrow>
               dec_value (fmt_PRId64 (size_b d)) = unat (size_b d))"
proof -
  have one: "write_output may_open fname (Some e) gs =
           (None, gs(fname \<mapsto>
              ''MEDIA_URL='' @ [dquote] @ url e @ [dquote, newline]
              @ ''MEDIA_LABEL='' @ [dquote] @ label e @ [dquote, newline]
              @ ''MEDIA_256SUM='' @ [dquote] @ sha256sum e @ [dquote, newline]
              @ ''MEDIA_SIZE='' @ [dquote] @ fmt_PRId64 (size_b e) @ [dquote, newline]))"
    for e gs
    using assms by (simp add: write_output_def fopen_w_def fprintf_fopen)
  have two: "write_output may_open fname (Some d)
               (snd (write_output may_open fname (Some d') fs))
             = write_output may_open fname (Some d) fs"
    by (simp add: one)
  have three: "dec_value (fmt_PRId64 (size_b d)) = unat (size_b d)" if "0 \<le> sint (size_b d)"
  proof -
    have "nat (sint (size_b d)) = unat (size_b d)"
      using that by (rule sint_nonneg_unat)
    then show ?thesis
      using that by (simp add: fmt_PRId64_def dec_value_dec_digits)
  qed
  show ?thesis
    using one [of d fs] two three by blast
qed

theorem write_output_four_lines_witness:
  "snd (write_output (\<lambda>path. True) ''/run/media-info'' (Some server_iso)
          [''/run/media-info'' \<mapsto> ''MEDIA_URL=stale'']) ''/run/media-info''
     = Some (''MEDIA_URL='' @ [dquote]
               @ ''https://releases.ubuntu.com/24.04/ubuntu-24.04-live-server-amd64.iso''
               @ [dquote, newline]
             @ ''MEDIA_LABEL='' @ [dquote] @ ''Ubuntu Server 24.04'' @ [dquote, newline]
             @ ''MEDIA_256SUM='' @ [dquote]
               @ ''8762f7e74e4d64d72fceb5f70682e6b069932deedb4949c6975d0f0fe0a91be3''
               @ [dquote, newline]
             @ ''MEDIA_SIZE='' @ [dquote] @ ''2754981888'' @ [dquote, newline])
   \<and> dec_value ''2754981888'' = 2754981888"
proof -
  have s: "0 \<le> sint (size_b server_iso)"
    by (simp add: server_iso_def)
  have f: "fmt_PRId64 (size_b server_iso) = ''2754981888''"
    by (simp add: server_iso_def fmt_PRId64_def dec_digits.simps)
  have u: "unat (size_b server_iso) = 2754981888"
    by (simp add: server_iso_def)
  show ?thesis
    using write_output_four_lines
      [of "\<lambda>path. True" "''/run/media-info''" server_iso
          "[''/run/media-info'' \<mapsto> ''MEDIA_URL=stale'']" server_iso] s
    by (simp add: f u) (simp add: server_iso_def)
qed

section \<open>Properties of \<^verbatim>\<open>menu_create\<close>\<close>

declare longest_loop.simps [simp del]
declare items_loop.simps [simp del]

lemma choice_at_ok:
  assumes "choices_ok c" and "k < length (values_a c)"
  shows "choice_at c (int k) = Inr (the (values_a c ! k))"
proof -
  have "values_a c ! k \<noteq> None"
    using assms by (metis choices_ok_def nth_mem)
  then show ?thesis
    using assms(2) by (auto simp: choice_at_def array_get_def)
qed

lemma longest_loop_from:
  assumes "choices_ok c" and "k \<le> length (values_a c)"
  shows "longest_loop c (int k) acc =
           Inr (foldl (\<lambda>a l. max a (int (length l))) acc (drop k (labels_of c)))"
  using assms(2)
proof (induction "length (values_a c) - k" arbitrary: k acc)
  case 0
  then have "k = length (values_a c)" by simp
  then show ?case
    using assms(1)
    by (subst longest_loop.simps) (simp add: choices_ok_def labels_of_def)
next
  case (Suc n)
  then have lt: "k < length (values_a c)" by simp
  have d: "drop k (labels_of c) = label (the (values_a c ! k)) # drop (Suc k) (labels_of c)"
    using lt by (simp add: labels_of_def flip: Cons_nth_drop_Suc)
  have "longest_loop c (int k) acc =
          longest_loop c (int (Suc k)) (max acc (int (length (label (the (values_a c ! k))))))"
    using lt assms(1)
    by (subst longest_loop.simps) (simp add: choice_at_ok add.commute, simp add: choices_ok_def)
  also have "\<dots> = Inr (foldl (\<lambda>a l. max a (int (length l)))
                        (max acc (int (length (label (the (values_a c ! k))))))
                        (drop (Suc k) (labels_of c)))"
    using Suc.hyps(2) lt by (intro Suc.hyps(1)) simp_all
  finally show ?case
    by (simp add: d)
qed

lemma foldl_max_widest:
  "foldl (\<lambda>a l. max a (int (length l))) (int a0) ls = int (Max (set (a0 # map length ls)))"
proof (induction ls arbitrary: a0)
  case Nil
  then show ?case by simp
next
  case (Cons l ls)
  have "foldl (\<lambda>a l. max a (int (length l))) (int a0) (l # ls)
          = foldl (\<lambda>a l. max a (int (length l))) (int (max a0 (length l))) ls"
    by simp
  also have "\<dots> = int (Max (set (max a0 (length l) # map length ls)))"
    by (rule Cons.IH)
  also have "Max (set (max a0 (length l) # map length ls)) = Max (set (a0 # map length (l # ls)))"
    by (cases "ls = []") (simp_all add: max.assoc)
  finally show ?case .
qed

lemma longest_loop_eq:
  assumes "choices_ok c"
  shows "longest_loop c 0 0 = Inr (int (widest_label (labels_of c)))"
  using longest_loop_from [OF assms, of 0 0] foldl_max_widest [of 0 "labels_of c"]
  by (simp add: widest_label_def)

lemma items_loop_from:
  assumes "choices_ok c" and "k \<le> length (values_a c)"
    and "length its = Suc (length (values_a c))"
  shows "items_loop wp c w (int k) its =
           Inr (take k its @ map (\<lambda>l. button_item wp l w) (drop k (labels_of c))
                @ drop (length (values_a c)) its)"
  using assms(2,3)
proof (induction "length (values_a c) - k" arbitrary: k its)
  case 0
  then have "k = length (values_a c)" by simp
  then show ?case
    using assms(1)
    by (subst items_loop.simps) (simp add: choices_ok_def labels_of_def)
next
  case (Suc n)
  then have lt: "k < length (values_a c)" by simp
  let ?b = "button_item wp (label (the (values_a c ! k))) w"
  have d: "drop k (labels_of c) = label (the (values_a c ! k)) # drop (Suc k) (labels_of c)"
    using lt by (simp add: labels_of_def flip: Cons_nth_drop_Suc)
  have "items_loop wp c w (int k) its = items_loop wp c w (int (Suc k)) (its[k := ?b])"
    using lt assms(1) Suc.prems(2)
    by (subst items_loop.simps)
      (simp add: choice_at_ok array_set_def add.commute, simp add: choices_ok_def)
  also have "\<dots> = Inr (take (Suc k) (its[k := ?b])
                        @ map (\<lambda>l. button_item wp l w) (drop (Suc k) (labels_of c))
                        @ drop (length (values_a c)) (its[k := ?b]))"
    using Suc.hyps(2) lt Suc.prems(2) by (intro Suc.hyps(1)) simp_all
  also have "take (Suc k) (its[k := ?b]) = take k its @ [?b]"
    using lt Suc.prems(2) by (simp add: take_Suc_conv_app_nth)
  also have "drop (length (values_a c)) (its[k := ?b]) = drop (length (values_a c)) its"
    using lt by simp
  finally show ?case
    by (simp add: d)
qed

lemma items_loop_eq:
  assumes "choices_ok c"
  shows "items_loop wp c w 0 (replicate (nat (len c + 1)) None) =
           Inr (map (\<lambda>l. button_item wp l w) (labels_of c) @ [None])"
proof -
  let ?n = "length (values_a c)"
  let ?its = "replicate (Suc ?n) (None :: string option)"
  have n: "nat (len c + 1) = Suc ?n"
    using assms by (simp add: choices_ok_def)
  have d: "drop ?n ?its = [None]"
    by (simp only: drop_replicate) simp
  have "items_loop wp c w (int 0) ?its =
          Inr (take 0 ?its @ map (\<lambda>l. button_item wp l w) (drop 0 (labels_of c))
               @ drop ?n ?its)"
    using assms by (intro items_loop_from) simp_all
  then show ?thesis
    unfolding n d by simp
qed

lemma menu_create_eq:
  assumes "choices_ok c"
  shows "menu_create wp ww L C r c =
           Inr \<lparr>window = newwin L C (len c) (int (widest_label (labels_of c)) + 6)
                           (vertical_center L (len c))
                           (horizontal_center C (int (widest_label (labels_of c)) + 6)),
                menu = post_menu (set_menu_fore
                         (new_menu ww
                            (map (\<lambda>l. button_item wp l (int (widest_label (labels_of c))))
                               (labels_of c) @ [None]))
                         (white_green r)),
                items = map (\<lambda>l. button_item wp l (int (widest_label (labels_of c))))
                          (labels_of c) @ [None],
                choices = c\<rparr>"
  unfolding menu_create_def longest_loop_eq [OF assms] items_loop_eq [OF assms]
  by (simp add: Let_def)

lemma button_item_cases:
  "button_item wp l w = None \<or> button_item wp l w = Some (button_text l w)"
  by (simp add: button_item_def new_item_def)

lemma accepted_buttons:
  assumes "buttons_accepted wp c"
  shows "map (\<lambda>l. button_item wp l (int (widest_label (labels_of c)))) (labels_of c) =
           map (\<lambda>l. Some (button_text l (int (widest_label (labels_of c))))) (labels_of c)"
proof (rule map_cong [OF refl])
  fix l
  assume "l \<in> set (labels_of c)"
  then have "button_item wp l (int (widest_label (labels_of c))) \<noteq> None"
    using assms by (simp add: buttons_accepted_def list_all_iff)
  then show "button_item wp l (int (widest_label (labels_of c))) =
               Some (button_text l (int (widest_label (labels_of c))))"
    using button_item_cases [of wp l "int (widest_label (labels_of c))"] by auto
qed

lemma names_up_to_null:
  "map the (takeWhile (\<lambda>p. p \<noteq> None) (map (\<lambda>l. Some (f l)) ls @ [None])) = map f ls"
  by (induction ls) simp_all

lemma to_short_id: "- 32768 \<le> n \<Longrightarrow> n \<le> 32767 \<Longrightarrow> to_short n = n"
  by (simp add: to_short_def)

lemma foldl_max_ge: "(a::int) \<le> foldl max a xs"
proof (induction xs arbitrary: a)
  case Nil
  show ?case by simp
next
  case (Cons x xs)
  have "a \<le> max a x" by simp
  also have "\<dots> \<le> foldl max (max a x) xs" by (rule Cons.IH)
  finally show ?case by simp
qed

lemma foldl_max_le:
  assumes "(a::int) \<le> b" and "\<forall>x \<in> set xs. x \<le> b"
  shows "foldl max a xs \<le> b"
  using assms by (induction xs arbitrary: a) simp_all

lemma foldl_max_bounds:
  assumes "xs \<noteq> []" and "\<forall>x \<in> set xs. 1 \<le> x \<and> x \<le> (b::int)"
  shows "1 \<le> foldl max 0 xs \<and> foldl max 0 xs \<le> b"
proof -
  obtain x ys where xs: "xs = x # ys"
    using assms(1) by (cases xs) auto
  have "1 \<le> max 0 x"
    using assms(2) xs by simp
  also have "\<dots> \<le> foldl max (max 0 x) ys"
    by (rule foldl_max_ge)
  finally have lo: "1 \<le> foldl max 0 xs"
    by (simp add: xs)
  have "0 \<le> b"
    using assms(2) xs by auto
  then have "foldl max 0 xs \<le> b"
    using assms(2) by (intro foldl_max_le) auto
  then show ?thesis
    using lo by simp
qed

text \<open>
  The menu of a choice set whose buttons are all accepted and measured within 16
  bits: one item per record, posted.
\<close>

lemma menu_create_posted:
  assumes "choices_ok c" and "1 \<le> len c" and "len c \<le> 32767"
    and "buttons_accepted wp c"
    and "\<forall>l \<in> set (labels_of c).
           1 \<le> Calculate_Text_Width ww (button_text l (int (widest_label (labels_of c))))
           \<and> Calculate_Text_Width ww (button_text l (int (widest_label (labels_of c))))
               \<le> 32767"
  shows "menu_create wp ww L C r c =
           Inr \<lparr>window = newwin L C (len c) (int (widest_label (labels_of c)) + 6)
                           (vertical_center L (len c))
                           (horizontal_center C (int (widest_label (labels_of c)) + 6)),
                menu = Some \<lparr>item_names =
                               map (\<lambda>l. button_text l (int (widest_label (labels_of c))))
                                 (labels_of c),
                             nitems = len c,
                             namelen =
                               foldl max 0
                                 (map (Calculate_Text_Width ww)
                                    (map (\<lambda>l. button_text l (int (widest_label (labels_of c))))
                                       (labels_of c))),
                             curitem = 0, menu_fore = white_green r, posted = True\<rparr>,
                items = map (\<lambda>l. Some (button_text l (int (widest_label (labels_of c)))))
                          (labels_of c) @ [None],
                choices = c\<rparr>"
proof -
  let ?w = "int (widest_label (labels_of c))"
  let ?names = "map (\<lambda>l. button_text l ?w) (labels_of c)"
  let ?k = "foldl max 0 (map (Calculate_Text_Width ww) ?names)"
  have n: "len c = int (length (values_a c))" and ne: "values_a c \<noteq> []"
    using assms(1,2) by (auto simp: choices_ok_def)
  have nn: "?names \<noteq> []" and ln: "int (length ?names) = len c"
    using ne n by (simp_all add: labels_of_def)
  have "\<forall>x \<in> set (map (Calculate_Text_Width ww) ?names). 1 \<le> x \<and> x \<le> 32767"
    using assms(5) by auto
  then have k: "1 \<le> ?k \<and> ?k \<le> 32767"
    using nn by (intro foldl_max_bounds) simp_all
  then have ks: "to_short ?k = ?k"
    by (intro to_short_id) simp_all
  have ls: "to_short (len c) = len c"
    using assms(2,3) by (intro to_short_id) simp_all
  have "post_menu (set_menu_fore
          (new_menu ww (map (\<lambda>l. Some (button_text l ?w)) (labels_of c) @ [None]))
          (white_green r))
        = Some \<lparr>item_names = ?names, nitems = len c, namelen = ?k, curitem = 0,
                menu_fore = white_green r, posted = True\<rparr>"
    unfolding new_menu_def names_up_to_null Let_def ln ks ls
    using nn k assms(2) by (simp add: set_menu_fore_def post_menu_def)
  then show ?thesis
    unfolding menu_create_eq [OF assms(1)] accepted_buttons [OF assms(4)] by (simp only: )
qed

lemma widest_label_ge: "l \<in> set ls \<Longrightarrow> length l \<le> widest_label ls"
  by (simp add: widest_label_def)


lemma button_text_padded:
  assumes "length l \<le> w"
  shows "button_text l (int w) =
           ''[ '' @ l @ replicate (w - length l) (CHR '' '') @ '' '' @ utf8_25b8 @ '' ]''"
    and "length (button_text l (int w)) = w + 8"
  using assms by (simp_all add: button_text_def fmt_left_def utf8_25b8_def)

text \<open>What \<^verbatim>\<open>mbstowcs\<close> makes of a button whose label is printable ASCII.\<close>

lemma mbs_ascii:
  assumes "list_all (\<lambda>b. b < 0x80) bs"
  shows "mbs 0 0 0 (bs @ rest) = map_option ((@) bs) (mbs 0 0 0 rest)"
  using assms
proof (induction bs)
  case Nil
  then show ?case
    by (simp add: option.map_ident)
next
  case (Cons b bs)
  then show ?case
    by (simp add: option.map_comp comp_def)
qed

lemma mbs_arrow:
  "mbs 0 0 0 (0xE2 # 0x96 # 0xB8 # rest) = map_option ((#) 0x25B8) (mbs 0 0 0 rest)"
  by simp

lemma printable_ascii_bytes:
  assumes "printable_ascii s"
  shows "list_all (\<lambda>b. b < 0x80) (map of_char s :: nat list)"
    and "list_all (iswprint wp) (map of_char s)"
    and "sum_list (map (wcwidth ww) (map of_char s)) = int (length s)"
    and "sum_list (map (\<lambda>cp. if wcwidth ww cp \<le> 0 then 1 else wcwidth ww cp)
                     (map of_char s)) = int (length s)"
  using assms
  by (induction s) (simp_all add: printable_ascii_def iswprint_def wcwidth_def)

lemma printable_ascii_fmt_left:
  assumes "printable_ascii l"
  shows "printable_ascii (''[ '' @ fmt_left w l @ '' '')"
  using assms by (auto simp: printable_ascii_def fmt_left_def list_all_iff)

lemma mbstowcs_button_text:
  assumes "printable_ascii l"
  shows "mbstowcs (button_text l w) =
           Some (map of_char (''[ '' @ fmt_left w l @ '' '') @ 0x25B8 # map of_char '' ]'')"
proof -
  let ?a = "map of_char (''[ '' @ fmt_left w l @ '' '') :: nat list"
  have t: "map of_char (button_text l w) = ?a @ (0xE2 # 0x96 # 0xB8 # map of_char '' ]'')"
    by (simp add: button_text_def utf8_25b8_def)
  have e: "mbs 0 0 0 (map of_char '' ]'') = Some (map of_char '' ]'')"
    by simp
  show ?thesis
    unfolding mbstowcs_def t
      mbs_ascii [OF printable_ascii_bytes(1) [OF printable_ascii_fmt_left [OF assms]]]
      mbs_arrow e
    by simp
qed

lemma button_item_printable_ascii:
  assumes "printable_ascii l" and "wp 0x25B8"
  shows "button_item wp l w = Some (button_text l w)"
proof -
  have "list_all (iswprint wp) (map of_char (''[ '' @ fmt_left w l @ '' ''))"
    by (rule printable_ascii_bytes(2) [OF printable_ascii_fmt_left [OF assms(1)]])
  moreover have "iswprint wp 0x25B8"
    using assms(2) by (simp add: iswprint_def)
  moreover have "list_all (iswprint wp) (map of_char '' ]'')"
    by (simp add: iswprint_def)
  ultimately have "Is_Printable_String wp (button_text l w)"
    unfolding Is_Printable_String_def mbstowcs_button_text [OF assms(1)] by simp
  moreover have "button_text l w \<noteq> []"
    by (simp add: button_text_def)
  ultimately show ?thesis
    by (simp add: button_item_def new_item_def)
qed


lemma text_width_button_text:
  assumes "printable_ascii l" and "length l \<le> w" and "w + 8 < 65536"
  shows "Calculate_Text_Width ww (button_text l (int w)) =
           int w + 5 + (if ww 0x25B8 \<le> 0 then 1 else ww 0x25B8)"
proof -
  let ?g = "\<lambda>cp. if wcwidth ww cp \<le> 0 then 1 else wcwidth ww cp"
  have "sum_list (map ?g (map of_char (''[ '' @ fmt_left (int w) l @ '' '')))
          = int (length (''[ '' @ fmt_left (int w) l @ '' ''))"
    by (rule printable_ascii_bytes(4) [OF printable_ascii_fmt_left [OF assms(1)]])
  also have "\<dots> = int w + 3"
    using assms(2) by (simp add: fmt_left_def)
  finally have a: "sum_list (map ?g (map of_char (''[ '' @ fmt_left (int w) l @ '' '')))
                     = int w + 3" .
  have b: "sum_list (map ?g (0x25B8 # map of_char '' ]''))
             = (if ww 0x25B8 \<le> 0 then 1 else ww 0x25B8) + 2"
    by (simp add: wcwidth_def)
  have n: "int (length (button_text l (int w))) mod 65536 \<noteq> 0"
    using assms(2,3) by (simp add: button_text_padded(2))
  have "Calculate_Text_Width ww (button_text l (int w)) =
          sum_list (map ?g (map of_char (''[ '' @ fmt_left (int w) l @ '' '')
                            @ 0x25B8 # map of_char '' ]''))"
    unfolding Calculate_Text_Width_def mbstowcs_button_text [OF assms(1)]
    using n by (simp only: option.case if_False)
  also have "\<dots> = sum_list (map ?g (map of_char (''[ '' @ fmt_left (int w) l @ '' '')))
                  + sum_list (map ?g (0x25B8 # map of_char '' ]''))"
    by (subst map_append, subst sum_list_append) (rule refl)
  also have "\<dots> = int w + 3 + ((if ww 0x25B8 \<le> 0 then 1 else ww 0x25B8) + 2)"
    by (simp only: a b)
  finally show ?thesis
    by simp
qed

lemma printable_ascii_accepted:
  assumes "\<forall>l \<in> set (labels_of c). printable_ascii l" and "wp 0x25B8"
  shows "buttons_accepted wp c"
  using assms by (simp add: buttons_accepted_def list_all_iff button_item_printable_ascii)

text \<open>The menus of the examples.\<close>

lemma sample_choices_ok: "choices_ok sample_choices"
  by (simp add: choices_ok_def sample_choices_def)

lemma sample_labels:
  "labels_of sample_choices = [''Ubuntu Server 24.04'', ''Ubuntu Desktop 24.04'']"
  by (simp add: labels_of_def sample_choices_def server_iso_def desktop_iso_def)

lemma sample_widest: "widest_label (labels_of sample_choices) = 20"
  by (simp add: sample_labels widest_label_def)

lemma sample_labels_ascii: "list_all printable_ascii (labels_of sample_choices)"
  by (simp add: sample_labels printable_ascii_def)

lemma sample_arrow: "sample_iswprint 0x25B8" "sample_wcwidth 0x25B8 = 1"
  by (simp_all add: sample_iswprint_def sample_wcwidth_def)

lemma sample_accepted: "buttons_accepted sample_iswprint sample_choices"
  using sample_labels_ascii sample_arrow(1)
  by (intro printable_ascii_accepted) (simp_all add: list_all_iff)

lemma white_green_sample: "white_green (fst (resources_create False)) = 3"
  by (simp add: resources_create_def Let_def)

lemma sample_widths:
  "\<forall>l \<in> set (labels_of sample_choices).
     Calculate_Text_Width sample_wcwidth
       (button_text l (int (widest_label (labels_of sample_choices)))) = 26"
proof
  fix l
  assume l: "l \<in> set (labels_of sample_choices)"
  then have p: "printable_ascii l"
    using sample_labels_ascii by (simp add: list_all_iff)
  have "length l \<le> widest_label (labels_of sample_choices)"
    using l by (rule widest_label_ge)
  then show "Calculate_Text_Width sample_wcwidth
               (button_text l (int (widest_label (labels_of sample_choices)))) = 26"
    using text_width_button_text [OF p, of "widest_label (labels_of sample_choices)"
            sample_wcwidth]
    by (simp add: sample_widest sample_arrow(2))
qed

lemma sample_menu_created:
  "menu_create sample_iswprint sample_wcwidth 24 80 (fst (resources_create False))
     sample_choices = Inr sample_menu"
proof -
  have v: "vertical_center 24 2 = 12" and h: "horizontal_center 80 26 = 27"
    by (simp_all add: vertical_center_def horizontal_center_def signed_divide_int_def)
  have l: "len sample_choices = 2"
    by (simp add: sample_choices_def)
  have w: "\<forall>l \<in> set (labels_of sample_choices).
             1 \<le> Calculate_Text_Width sample_wcwidth
                   (button_text l (int (widest_label (labels_of sample_choices))))
             \<and> Calculate_Text_Width sample_wcwidth
                 (button_text l (int (widest_label (labels_of sample_choices)))) \<le> 32767"
    using sample_widths by simp
  have k: "foldl max 0
             (map (Calculate_Text_Width sample_wcwidth)
                (map (\<lambda>l. button_text l (int (widest_label (labels_of sample_choices))))
                   (labels_of sample_choices))) = 26"
  proof -
    have "map (Calculate_Text_Width sample_wcwidth)
            (map (\<lambda>l. button_text l (int (widest_label (labels_of sample_choices))))
               (labels_of sample_choices))
          = map (\<lambda>l. 26) (labels_of sample_choices)"
      using sample_widths by (simp del: sample_widest)
    then show ?thesis
      by (simp only: sample_labels) simp
  qed
  have n: "1 \<le> len sample_choices" "len sample_choices \<le> 32767"
    by (simp_all add: l)
  note mc = menu_create_posted [OF sample_choices_ok n sample_accepted w,
              of 24 80 "fst (resources_create False)", unfolded k]
  show ?thesis
    unfolding mc sample_widest l white_green_sample
    by (simp add: v h sample_labels sample_menu_def button_text_def fmt_left_def newwin_def)
qed

lemma tab_choices_ok: "choices_ok tab_choices"
  by (simp add: choices_ok_def tab_choices_def)

lemma tab_labels: "labels_of tab_choices = [''c'', [CHR ''a'', CHR 0x09, CHR ''b''], ''d'']"
  by (simp add: labels_of_def tab_choices_def)

lemma tab_widest: "widest_label (labels_of tab_choices) = 3"
  by (simp add: tab_labels widest_label_def)

lemma replicate_two: "replicate 2 x = [x, x]"
  by (simp add: numeral_2_eq_2)

lemma tab_buttons:
  "button_item sample_iswprint ''c'' 3 = Some (''[ c   '' @ utf8_25b8 @ '' ]'')"
  "button_item sample_iswprint [CHR ''a'', CHR 0x09, CHR ''b''] 3 = None"
  "button_item sample_iswprint ''d'' 3 = Some (''[ d   '' @ utf8_25b8 @ '' ]'')"
  by (simp_all add: button_item_def new_item_def Is_Printable_String_def mbstowcs_def
      iswprint_def sample_iswprint_def button_text_def fmt_left_def utf8_25b8_def
      replicate_two)

lemma tab_menu_created:
  "menu_create sample_iswprint sample_wcwidth 24 80 (fst (resources_create False))
     tab_choices = Inr tab_menu"
proof -
  have v: "vertical_center 24 3 = 12" and h: "horizontal_center 80 9 = 35"
    by (simp_all add: vertical_center_def horizontal_center_def signed_divide_int_def)
  have l: "len tab_choices = 3"
    by (simp add: tab_choices_def)
  show ?thesis
    unfolding menu_create_eq [OF tab_choices_ok] tab_widest l white_green_sample
    by (simp add: v h tab_labels tab_buttons tab_menu_def newwin_def
        new_menu_def set_menu_fore_def post_menu_def to_short_def Calculate_Text_Width_def
        mbstowcs_def wcwidth_def sample_wcwidth_def utf8_25b8_def)
qed









section \<open>Properties of the selection loop\<close>

lemma loop_body_cases:
  "loop_body m ch =
     (if ch = KEY_DOWN then (m\<lparr>menu := menu_driver (menu m) REQ_DOWN_ITEM\<rparr>, True)
      else if ch = KEY_UP then (m\<lparr>menu := menu_driver (menu m) REQ_UP_ITEM\<rparr>, True)
      else if commit_key ch then (m, False)
      else (m, True))"
  by (simp add: loop_body_def commit_key_def)

lemma loop_body_choices: "choices (fst (loop_body m ch)) = choices m"
  by (simp add: loop_body_cases)

lemma loop_body_names:
  "menu m = Some mn \<Longrightarrow>
     \<exists>mn'. menu (fst (loop_body m ch)) = Some mn' \<and> item_names mn' = item_names mn
        \<and> nitems mn' = nitems mn \<and> posted mn' = posted mn"
  by (simp add: loop_body_cases)

lemma highlighted_Some:
  "menu m = Some mn \<Longrightarrow> item_names mn \<noteq> [] \<Longrightarrow> highlighted m = curitem mn"
  by (simp add: highlighted_def current_item_def item_index_def)

lemma highlighted_down:
  assumes "menu m = Some mn" and "posted mn" and "item_names mn \<noteq> []"
    and "highlighted m < nitems mn"
  shows "highlighted (fst (loop_body m KEY_DOWN)) = min (highlighted m + 1) (nitems mn - 1)"
  using assms
  by (auto simp: loop_body_def highlighted_def current_item_def item_index_def KEY_DOWN_def)

lemma highlighted_up:
  assumes "menu m = Some mn" and "posted mn" and "0 \<le> highlighted m"
  shows "highlighted (fst (loop_body m KEY_UP)) = max (highlighted m - 1) 0"
  using assms
  by (auto simp: loop_body_def highlighted_def current_item_def item_index_def
      KEY_DOWN_def KEY_UP_def)

lemma highlighted_range_step:
  assumes "menu m = Some mn"
    and "0 \<le> highlighted m" and "highlighted m < nitems mn"
  shows "0 \<le> highlighted (fst (loop_body m ch))
         \<and> highlighted (fst (loop_body m ch)) < nitems mn"
  using assms
  by (auto simp: loop_body_cases highlighted_def current_item_def item_index_def)

lemma after_keys_snoc: "after_keys m (chs @ [ch]) = fst (loop_body (after_keys m chs) ch)"
  by (simp add: after_keys_def)

lemma after_keys_Cons: "after_keys m (ch # chs) = after_keys (fst (loop_body m ch)) chs"
  by (simp add: after_keys_def)

lemma after_keys_invariant:
  assumes "menu m = Some mn"
    and "0 \<le> highlighted m" and "highlighted m < nitems mn"
  shows "choices (after_keys m chs) = choices m
         \<and> (\<exists>mn'. menu (after_keys m chs) = Some mn' \<and> item_names mn' = item_names mn
                \<and> nitems mn' = nitems mn \<and> posted mn' = posted mn)
         \<and> 0 \<le> highlighted (after_keys m chs)
         \<and> highlighted (after_keys m chs) < nitems mn"
proof (induction chs rule: rev_induct)
  case Nil
  show ?case using assms by (simp add: after_keys_def)
next
  case (snoc ch chs)
  then obtain mn' where mn': "menu (after_keys m chs) = Some mn'"
    "item_names mn' = item_names mn" "nitems mn' = nitems mn" "posted mn' = posted mn"
    by blast
  show ?case
    unfolding after_keys_snoc
    using snoc mn' loop_body_names [OF mn'(1), of ch]
      highlighted_range_step [OF mn'(1), of ch]
    by (auto simp: loop_body_choices)
qed

lemma select_loop_Some:
  "select_loop m chs = Some m' \<Longrightarrow>
     \<exists>pre ch post. chs = pre @ ch # post \<and> commit_key ch
        \<and> (\<forall>x \<in> set pre. \<not> commit_key x) \<and> m' = after_keys m pre"
proof (induction chs arbitrary: m)
  case Nil
  then show ?case by simp
next
  case (Cons ch chs)
  show ?case
  proof (cases "commit_key ch")
    case True
    then have "ch \<noteq> KEY_DOWN" "ch \<noteq> KEY_UP"
      by (auto simp: commit_key_def KEY_DOWN_def KEY_UP_def KEY_ENTER_def)
    then have "m' = m"
      using Cons.prems True by (simp add: loop_body_cases)
    then have "ch # chs = [] @ ch # chs \<and> commit_key ch
        \<and> (\<forall>x \<in> set []. \<not> commit_key x) \<and> m' = after_keys m []"
      using True by (simp add: after_keys_def)
    then show ?thesis by blast
  next
    case False
    then have "snd (loop_body m ch)" and "select_loop (fst (loop_body m ch)) chs = Some m'"
      using Cons.prems by (auto simp: loop_body_cases split: if_splits)
    from Cons.IH [OF this(2)] obtain pre k post where
      "chs = pre @ k # post" "commit_key k" "\<forall>x \<in> set pre. \<not> commit_key x"
      "m' = after_keys (fst (loop_body m ch)) pre"
      by blast
    then have "ch # chs = (ch # pre) @ k # post \<and> commit_key k
        \<and> (\<forall>x \<in> set (ch # pre). \<not> commit_key x) \<and> m' = after_keys m (ch # pre)"
      using False by (simp add: after_keys_Cons)
    then show ?thesis by blast
  qed
qed


lemma selected_item_at:
  assumes "menu m = Some mn" and "0 \<le> highlighted m"
    and "highlighted m < int (length (values_a (choices m)))"
  shows "menu_get_selected_item m = Inr (values_a (choices m) ! nat (highlighted m))"
  using assms by (simp add: menu_get_selected_item_def array_get_def highlighted_def Let_def)

text \<open>
  C1. For a choice set of \<open>n\<close> records with \<open>1 \<le> n \<le> 32767\<close>, all present, for
  each of which \<^verbatim>\<open>button_item\<close> returns an item and not \<^verbatim>\<open>NULL\<close>, of a width that the
  menu library measures between 1 and 32767 columns, the menu that \<^verbatim>\<open>menu_create\<close>
  builds has index 0 highlighted. After any keys have gone through the body of the
  loop the highlighted index \<open>i\<close> is in \<open>[0, n)\<close>; one more \<^verbatim>\<open>KEY_DOWN\<close> moves it
  to \<open>min (i + 1) (n - 1)\<close>, one more \<^verbatim>\<open>KEY_UP\<close> to \<open>max (i - 1) 0\<close>;
  \<^verbatim>\<open>menu_get_selected_item\<close> returns the record in slot \<open>i\<close> of the choice set,
  which is not \<^verbatim>\<open>NULL\<close>. Whenever the loop ends, the menu it ends with has its
  highlighted index in \<open>[0, n)\<close> and \<^verbatim>\<open>menu_get_selected_item\<close> returns the record
  at that index.
\<close>

theorem selection_session_navigation:
  assumes "choices_ok c" and "1 \<le> len c" and "len c \<le> 32767"
    and "\<forall>l \<in> set (labels_of c).
           button_item wp l (int (widest_label (labels_of c))) \<noteq> None
           \<and> 1 \<le> Calculate_Text_Width ww (button_text l (int (widest_label (labels_of c))))
           \<and> Calculate_Text_Width ww (button_text l (int (widest_label (labels_of c))))
               \<le> 32767"
  shows "\<exists>m0. menu_create wp ww L C r c = Inr m0 \<and> highlighted m0 = 0
           \<and> (\<forall>chs. 0 \<le> highlighted (after_keys m0 chs)
                  \<and> highlighted (after_keys m0 chs) < len c
                  \<and> highlighted (fst (loop_body (after_keys m0 chs) KEY_DOWN))
                      = min (highlighted (after_keys m0 chs) + 1) (len c - 1)
                  \<and> highlighted (fst (loop_body (after_keys m0 chs) KEY_UP))
                      = max (highlighted (after_keys m0 chs) - 1) 0
                  \<and> menu_get_selected_item (after_keys m0 chs)
                      = Inr (values_a c ! nat (highlighted (after_keys m0 chs)))
                  \<and> values_a c ! nat (highlighted (after_keys m0 chs)) \<noteq> None)
           \<and> (\<forall>chs m'. select_loop m0 chs = Some m' \<longrightarrow>
                  0 \<le> highlighted m' \<and> highlighted m' < len c
                  \<and> menu_get_selected_item m' = Inr (values_a c ! nat (highlighted m')))"
proof -
  let ?w = "int (widest_label (labels_of c))"
  have n: "len c = int (length (values_a c))" and ne: "values_a c \<noteq> []"
    using assms(1,2) by (auto simp: choices_ok_def)
  have acc: "buttons_accepted wp c"
    using assms(4) by (simp add: buttons_accepted_def list_all_iff)
  have wd: "\<forall>l \<in> set (labels_of c).
              1 \<le> Calculate_Text_Width ww (button_text l ?w)
              \<and> Calculate_Text_Width ww (button_text l ?w) \<le> 32767"
    using assms(4) by simp
  obtain m0 mn where m0: "menu_create wp ww L C r c = Inr m0"
    and ch: "choices m0 = c" and mn: "menu m0 = Some mn"
    and names: "item_names mn = map (\<lambda>l. button_text l ?w) (labels_of c)"
    and cnt: "nitems mn = len c" and cur: "curitem mn = 0" and post: "posted mn"
    using menu_create_posted [OF assms(1-3) acc wd, of L C r] by simp
  have nn: "item_names mn \<noteq> []"
    using names ne by (simp add: labels_of_def)
  have h0: "highlighted m0 = 0"
    using mn nn cur by (simp add: highlighted_Some)
  have inv: "choices (after_keys m0 chs) = c
         \<and> (\<exists>mn'. menu (after_keys m0 chs) = Some mn' \<and> item_names mn' = item_names mn
                \<and> nitems mn' = nitems mn \<and> posted mn' = posted mn)
         \<and> 0 \<le> highlighted (after_keys m0 chs)
         \<and> highlighted (after_keys m0 chs) < len c" for chs
  proof -
    have "0 \<le> highlighted m0" and "highlighted m0 < nitems mn"
      using h0 cnt assms(2) by simp_all
    from after_keys_invariant [OF mn this, of chs] show ?thesis
      using cnt ch by simp
  qed
  have nav: "0 \<le> highlighted (after_keys m0 chs)
                  \<and> highlighted (after_keys m0 chs) < len c
                  \<and> highlighted (fst (loop_body (after_keys m0 chs) KEY_DOWN))
                      = min (highlighted (after_keys m0 chs) + 1) (len c - 1)
                  \<and> highlighted (fst (loop_body (after_keys m0 chs) KEY_UP))
                      = max (highlighted (after_keys m0 chs) - 1) 0
                  \<and> menu_get_selected_item (after_keys m0 chs)
                      = Inr (values_a c ! nat (highlighted (after_keys m0 chs)))
                  \<and> values_a c ! nat (highlighted (after_keys m0 chs)) \<noteq> None" for chs
  proof -
    let ?m = "after_keys m0 chs"
    from inv [of chs] obtain mn' where
      c: "choices ?m = c" and m: "menu ?m = Some mn'" and nm: "item_names mn' = item_names mn"
      and cnt': "nitems mn' = nitems mn" and post': "posted mn' = posted mn"
      and lo: "0 \<le> highlighted ?m" and hi: "highlighted ?m < len c"
      by blast
    have d: "highlighted (fst (loop_body ?m KEY_DOWN)) = min (highlighted ?m + 1) (len c - 1)"
    proof -
      have "posted mn'" and "item_names mn' \<noteq> []" and "highlighted ?m < nitems mn'"
        using hi nn nm cnt cnt' post post' by simp_all
      from highlighted_down [OF m this] show ?thesis
        using cnt cnt' by simp
    qed
    have u: "highlighted (fst (loop_body ?m KEY_UP)) = max (highlighted ?m - 1) 0"
      using highlighted_up [OF m _ lo] post post' by simp
    have s: "menu_get_selected_item ?m = Inr (values_a c ! nat (highlighted ?m))"
      using selected_item_at [OF m lo] hi n c by simp
    have "nat (highlighted ?m) < length (values_a c)"
      using lo hi n by simp
    then have "values_a c ! nat (highlighted ?m) \<noteq> None"
      using assms(1) by (metis choices_ok_def nth_mem)
    then show ?thesis
      using lo hi d u s by simp
  qed
  have com: "0 \<le> highlighted m' \<and> highlighted m' < len c
                  \<and> menu_get_selected_item m' = Inr (values_a c ! nat (highlighted m'))"
    if "select_loop m0 chs = Some m'" for chs m'
  proof -
    from select_loop_Some [OF that] obtain pre where "m' = after_keys m0 pre"
      by blast
    then show ?thesis
      using nav [of pre] by simp
  qed
  show ?thesis
    using m0 h0 nav com by blast
qed

theorem selection_session_navigation_witness:
  "choices_ok sample_choices \<and> 1 \<le> len sample_choices \<and> len sample_choices \<le> 32767
   \<and> list_all (\<lambda>l. button_item sample_iswprint l
                       (int (widest_label (labels_of sample_choices))) \<noteq> None
                   \<and> Calculate_Text_Width sample_wcwidth
                       (button_text l (int (widest_label (labels_of sample_choices)))) = 26)
       (labels_of sample_choices)
   \<and> menu_create sample_iswprint sample_wcwidth 24 80 (fst (resources_create False))
       sample_choices = Inr sample_menu
   \<and> highlighted sample_menu = 0
   \<and> highlighted (fst (loop_body sample_menu KEY_DOWN)) = 1
   \<and> highlighted (fst (loop_body sample_menu KEY_UP)) = 0
   \<and> menu_get_selected_item sample_menu = Inr (Some server_iso)
   \<and> (\<exists>m'. select_loop sample_menu [KEY_DOWN, 10] = Some m'
          \<and> highlighted m' = 1
          \<and> menu_get_selected_item m' = Inr (Some desktop_iso))"
proof -
  have l: "1 \<le> len sample_choices" "len sample_choices \<le> 32767"
    by (simp_all add: sample_choices_def)
  have acc: "list_all (\<lambda>l. button_item sample_iswprint l
                       (int (widest_label (labels_of sample_choices))) \<noteq> None
                   \<and> Calculate_Text_Width sample_wcwidth
                       (button_text l (int (widest_label (labels_of sample_choices)))) = 26)
               (labels_of sample_choices)"
  proof -
    have "button_item sample_iswprint l' (int (widest_label (labels_of sample_choices))) \<noteq> None
          \<and> Calculate_Text_Width sample_wcwidth
              (button_text l' (int (widest_label (labels_of sample_choices)))) = 26"
      if "l' \<in> set (labels_of sample_choices)" for l'
    proof -
      have p: "printable_ascii l'"
        using that sample_labels_ascii by (simp add: list_all_iff)
      have "length l' \<le> widest_label (labels_of sample_choices)"
        using that by (rule widest_label_ge)
      then have "Calculate_Text_Width sample_wcwidth
                   (button_text l' (int (widest_label (labels_of sample_choices)))) = 26"
        using text_width_button_text [OF p, of "widest_label (labels_of sample_choices)"
                sample_wcwidth]
        by (simp add: sample_widest sample_arrow(2))
      then show ?thesis
        using button_item_printable_ascii [of l' sample_iswprint] p sample_arrow(1) by simp
    qed
    then show ?thesis
      by (simp only: list_all_iff) blast
  qed
  then have acc': "\<forall>l \<in> set (labels_of sample_choices).
                     button_item sample_iswprint l
                       (int (widest_label (labels_of sample_choices))) \<noteq> None
                     \<and> 1 \<le> Calculate_Text_Width sample_wcwidth
                         (button_text l (int (widest_label (labels_of sample_choices))))
                     \<and> Calculate_Text_Width sample_wcwidth
                         (button_text l (int (widest_label (labels_of sample_choices))))
                         \<le> 32767"
    by (simp add: list_all_iff)
  from selection_session_navigation
         [OF sample_choices_ok l acc', of 24 80 "fst (resources_create False)"]
  obtain m0 where m0: "menu_create sample_iswprint sample_wcwidth 24 80
                         (fst (resources_create False)) sample_choices = Inr m0"
    "highlighted m0 = 0"
    and nav: "highlighted (fst (loop_body (after_keys m0 []) KEY_DOWN))
                = min (highlighted (after_keys m0 []) + 1) (len sample_choices - 1)"
      "highlighted (fst (loop_body (after_keys m0 []) KEY_UP))
                = max (highlighted (after_keys m0 []) - 1) 0"
      "menu_get_selected_item (after_keys m0 [])
                = Inr (values_a sample_choices ! nat (highlighted (after_keys m0 [])))"
    and com: "\<And>chs m'. select_loop m0 chs = Some m' \<Longrightarrow>
                menu_get_selected_item m' = Inr (values_a sample_choices ! nat (highlighted m'))"
    by blast
  have m: "m0 = sample_menu"
    using m0(1) sample_menu_created by simp
  have e: "after_keys sample_menu [] = sample_menu"
    by (simp add: after_keys_def)
  have n: "highlighted (fst (loop_body sample_menu KEY_DOWN)) = 1"
    "highlighted (fst (loop_body sample_menu KEY_UP)) = 0"
    "menu_get_selected_item sample_menu = Inr (Some server_iso)"
    using nav m0(2) unfolding m e by (simp_all add: sample_choices_def)
  have k: "commit_key 10" "\<not> commit_key KEY_DOWN"
    by (simp_all add: commit_key_def KEY_DOWN_def KEY_ENTER_def)
  have s: "select_loop sample_menu [KEY_DOWN, 10] = Some (fst (loop_body sample_menu KEY_DOWN))"
    using k by (simp add: loop_body_cases KEY_DOWN_def KEY_UP_def)
  have "menu_get_selected_item (fst (loop_body sample_menu KEY_DOWN)) = Inr (Some desktop_iso)"
    using com [of "[KEY_DOWN, 10]" "fst (loop_body sample_menu KEY_DOWN)"] s n(1)
    unfolding m by (simp add: sample_choices_def)
  then show ?thesis
    using sample_choices_ok l acc sample_menu_created m0(2) n s unfolding m by simp
qed

text \<open>
  Three records, the second with a TAB in its label: the menu has one item, and
  \<^verbatim>\<open>KEY_DOWN\<close> on the first entry leaves index 0 highlighted, where
  \<open>min (0 + 1) (3 - 1)\<close> is 1.
\<close>

theorem unprintable_label_counterexample:
  "choices_ok tab_choices \<and> len tab_choices = 3
   \<and> menu_create sample_iswprint sample_wcwidth 24 80 (fst (resources_create False))
       tab_choices = Inr tab_menu
   \<and> highlighted tab_menu = 0
   \<and> highlighted (fst (loop_body tab_menu KEY_DOWN)) = 0
   \<and> min (highlighted tab_menu + 1) (len tab_choices - 1) = 1"
  using tab_choices_ok tab_menu_created
  by (simp add: tab_choices_def tab_menu_def highlighted_def current_item_def item_index_def
      loop_body_cases utf8_25b8_def)



section \<open>Properties of the screen geometry\<close>

lemma sdiv_two: "a sdiv (2::int) = (if 0 \<le> a then a div 2 else - ((- a) div 2))"
  by (auto simp: signed_divide_int_def sgn_if)

lemma vertical_center_ge3: "(3 \<le> vertical_center L n) = (n \<le> L - 2)"
  unfolding vertical_center_def sdiv_two by (simp split: if_splits) presburger

lemma vertical_center_eq3: "(vertical_center L n = 3) = (L - 4 \<le> n \<and> n \<le> L - 2)"
  unfolding vertical_center_def sdiv_two by (simp split: if_splits) presburger

lemma vertical_center_neg: "(vertical_center L n < 0) = (L + 5 \<le> n)"
  unfolding vertical_center_def sdiv_two by (simp split: if_splits) presburger



lemma menu_create_window:
  assumes "menu_create wp ww L C r c = Inr m"
  shows "begin_y (window m) = vertical_center L (len c)"
  using assms by (auto simp: menu_create_def newwin_def Let_def split: sum.splits)


text \<open>
  On a screen of 20 columns the window of the two sample buttons is asked for at
  column -3, and \<^verbatim>\<open>newwin\<close> returns \<^verbatim>\<open>NULL\<close>.
\<close>

lemma newwin_narrow_screen:
  "horizontal_center 20 26 = - 3
   \<and> is_null (newwin 24 20 2 26 (vertical_center 24 2) (horizontal_center 20 26))"
  by (simp add: newwin_def horizontal_center_def vertical_center_def signed_divide_int_def)


text \<open>
  C9, as stated: for a list longer than \<open>LINES - 3\<close> the computed top row falls
  below 3. On a terminal of 24 lines a list of 22 entries is longer than 21, and its
  top row is 3: \<open>-1 / 2\<close> is 0 when the division truncates.
\<close>

theorem vertical_center_overlap_counterexample:
  "(24::int) - 3 < 22 \<and> vertical_center 24 22 = 3 \<and> \<not> vertical_center 24 22 < 3"
  by (simp add: vertical_center_def signed_divide_int_def)

text \<open>
  C9, amended. The top row of the menu window is \<open>3 + (LINES - 3 - n) / 2\<close> with the
  division truncating towards zero, for every \<open>n\<close>, with no guard. The row is at
  least 3 exactly when \<open>n \<le> LINES - 2\<close>: for \<open>n \<le> LINES - 3\<close> the list starts
  below the three banner rows, and for \<open>n = LINES - 2\<close> the row is still 3. It is
  exactly 3 for \<open>LINES - 4 \<le> n \<le> LINES - 2\<close>, below 3 from \<open>n = LINES - 1\<close> on, and
  negative exactly when \<open>n \<ge> LINES + 5\<close>.
\<close>

theorem menu_top_row:
  "vertical_center L n =
     3 + (if 0 \<le> L - 3 - n then (L - 3 - n) div 2 else - ((n + 3 - L) div 2))
   \<and> (\<forall>m. menu_create wp ww L C r c = Inr m \<longrightarrow>
          begin_y (window m) = vertical_center L (len c))
   \<and> (3 \<le> vertical_center L n) = (n \<le> L - 2)
   \<and> (vertical_center L n = 3) = (L - 4 \<le> n \<and> n \<le> L - 2)
   \<and> (vertical_center L n < 0) = (L + 5 \<le> n)"
proof -
  have e: "- (L - 3 - n) = n + 3 - L" by simp
  have "vertical_center L n =
     3 + (if 0 \<le> L - 3 - n then (L - 3 - n) div 2 else - ((n + 3 - L) div 2))"
    unfolding vertical_center_def sdiv_two e by (rule refl)
  then show ?thesis
    using menu_create_window [of wp ww L C r c]
      vertical_center_ge3 [of L n] vertical_center_eq3 [of L n] vertical_center_neg [of L n]
    by blast
qed

theorem menu_top_row_witness:
  "menu_create sample_iswprint sample_wcwidth 24 80 (fst (resources_create False))
     sample_choices = Inr sample_menu
   \<and> begin_y (window sample_menu) = vertical_center 24 (len sample_choices)
   \<and> vertical_center 24 2 = 12
   \<and> vertical_center 24 22 = 3
   \<and> vertical_center 24 23 = 2
   \<and> vertical_center 24 29 = - 1"
proof -
  have "begin_y (window sample_menu) = vertical_center 24 (len sample_choices)"
    using menu_top_row [of 24 2 sample_iswprint sample_wcwidth 80 "fst (resources_create False)"
        sample_choices]
      sample_menu_created by blast
  moreover have "vertical_center 24 2 = 12" "vertical_center 24 22 = 3"
    "vertical_center 24 23 = 2" "vertical_center 24 29 = - 1"
    using menu_top_row [of 24 2 sample_iswprint sample_wcwidth 80 "fst (resources_create False)"
        sample_choices]
      menu_top_row [of 24 22 sample_iswprint sample_wcwidth 80 "fst (resources_create False)"
        sample_choices]
      menu_top_row [of 24 23 sample_iswprint sample_wcwidth 80 "fst (resources_create False)"
        sample_choices]
      menu_top_row [of 24 29 sample_iswprint sample_wcwidth 80 "fst (resources_create False)"
        sample_choices]
    by simp_all
  ultimately show ?thesis
    using sample_menu_created by simp
qed




section \<open>Properties of \<^verbatim>\<open>main\<close>\<close>

text \<open>
  The exits of \<^verbatim>\<open>main\<close>: 1 from \<^verbatim>\<open>usage\<close>, 1 when \<^verbatim>\<open>read_iso_choices\<close> returns
  \<^verbatim>\<open>NULL\<close>, 1 when \<^verbatim>\<open>initscr\<close>, \<^verbatim>\<open>has_colors\<close> or \<^verbatim>\<open>start_color\<close> fails, 1 when the
  output file cannot be opened, 0 after the file is written. No other status is
  ever passed to \<^verbatim>\<open>exit\<close> or returned.
\<close>

lemma main_usage:
  "args_created w = None \<Longrightarrow> status (main w) = Exit 1"
  by (simp add: main_def usage_def)

lemma main_no_choice_set:
  assumes "args_created w = Some a"
    and "read_iso_choices (alloc_ok w) (get_newest_iso w) (ARCH w) a = Inr (calls, None)"
  shows "status (main w) = Exit 1"
  using assms by (simp add: main_def)

lemma main_terminal_failure:
  assumes "args_created w = Some a"
    and "read_iso_choices (alloc_ok w) (get_newest_iso w) (ARCH w) a = Inr (calls, Some c)"
    and "\<not> initscr_ok w \<or> \<not> has_colors w \<or> \<not> start_color_ok w"
  shows "status (main w) = Exit 1"
  using assms by (auto simp: main_def)

lemma main_after_selection:
  assumes "args_created w = Some a"
    and "read_iso_choices (alloc_ok w) (get_newest_iso w) (ARCH w) a = Inr (calls, Some c)"
    and "initscr_ok w" and "has_colors w" and "start_color_ok w"
    and "menu_create (iswprint_wide w) (wcwidth_wide w) (LINES w) (COLS w)
           (fst (resources_create (can_change_color w))) c = Inr m"
    and "\<not> is_null (window m)"
    and "select_loop m (keys w) = Some m'"
    and "menu_get_selected_item m' = Inr (Some d)"
  shows "status (main w) = (if can_open w (outfile a) then Exit 0 else Exit 1)"
proof -
  obtain res ops where ro: "resources_create (can_change_color w) = (res, ops)"
    by (cases "resources_create (can_change_color w)")
  then have "menu_create (iswprint_wide w) (wcwidth_wide w) (LINES w) (COLS w) res c = Inr m"
    using assms(6) by simp
  then show ?thesis
    using assms(1-5,7-9) ro by (simp add: main_def write_output_def Let_def)
qed

lemma main_exit_status:
  assumes "status (main w) = Exit k"
  shows "k = 0 \<or> k = 1"
  using assms
  by (auto simp: main_def usage_def write_output_def Let_def
      split: option.splits sum.splits prod.splits if_splits)

text \<open>
  On the terminal of 24 lines and 80 columns, with the two feeds and the keys down
  and newline, the program writes the four lines of the desktop image and exits
  with 0.
\<close>

lemma main_sample_run:
  "status (main sample_world) = Exit 0
   \<and> files_after (main sample_world) ''/run/media-info''
       = Some (''MEDIA_URL='' @ [dquote]
                 @ ''https://releases.ubuntu.com/24.04/ubuntu-24.04-desktop-amd64.iso''
                 @ [dquote, newline]
               @ ''MEDIA_LABEL='' @ [dquote] @ ''Ubuntu Desktop 24.04'' @ [dquote, newline]
               @ ''MEDIA_256SUM='' @ [dquote]
                 @ ''81fae9cc21e2b1e3a9a4526c7dad3131b668e346c580702235ad4d02645d9455''
                 @ [dquote, newline]
               @ ''MEDIA_SIZE='' @ [dquote] @ ''6114656256'' @ [dquote, newline])"
proof -
  have w: "args_created sample_world = Some sample_args" "alloc_ok sample_world"
    "get_newest_iso sample_world = sample_reader" "ARCH sample_world = ''amd64''"
    "initscr_ok sample_world" "has_colors sample_world" "start_color_ok sample_world"
    "can_change_color sample_world = False" "LINES sample_world = 24" "COLS sample_world = 80"
    "can_open sample_world = (\<lambda>path. True)"
    "files_before sample_world = Map.empty"
    "iswprint_wide sample_world = sample_iswprint"
    "wcwidth_wide sample_world = sample_wcwidth"
    by (simp_all add: sample_world_def)
  have ks: "keys sample_world = [KEY_DOWN, 10]"
    by (simp add: sample_world_def)
  have "args_ok sample_args"
    by (simp add: args_ok_def sample_args_def)
  then have r: "read_iso_choices True sample_reader ''amd64'' sample_args
                  = Inr ([(''server.json'', ''amd64''), (''desktop.json'', ''amd64'')],
                         Some sample_choices)"
    by (simp add: read_iso_choices_eq)
      (simp add: sample_args_def sample_reader_def sample_choices_def)
  have k: "commit_key 10" "\<not> commit_key KEY_DOWN"
    by (simp_all add: commit_key_def KEY_DOWN_def KEY_ENTER_def)
  have s: "select_loop sample_menu (keys sample_world) = Some (after_keys sample_menu [KEY_DOWN])"
    unfolding ks using k by (simp add: loop_body_cases after_keys_def KEY_DOWN_def KEY_UP_def)
  have g: "menu_get_selected_item (after_keys sample_menu [KEY_DOWN]) = Inr (Some desktop_iso)"
    by (simp add: after_keys_def loop_body_cases k
        menu_get_selected_item_def current_item_def item_index_def array_get_def
        sample_menu_def sample_choices_def)
  have f: "fmt_PRId64 (size_b desktop_iso) = ''6114656256''"
    by (simp add: desktop_iso_def fmt_PRId64_def dec_digits.simps)
  have o: "outfile sample_args = ''/run/media-info''"
    by (simp add: sample_args_def)
  have m: "menu_create sample_iswprint sample_wcwidth 24 80 (fst (resources_create False))
             sample_choices = Inr sample_menu"
    by (rule sample_menu_created)
  obtain res ops where ro: "resources_create False = (res, ops)"
    by (cases "resources_create False")
  have m': "menu_create sample_iswprint sample_wcwidth 24 80 res sample_choices
              = Inr sample_menu"
    using m ro by simp
  have nn: "\<not> is_null (window sample_menu)"
    by (simp add: sample_menu_def)
  show ?thesis
    by (simp add: main_def w r ro m' nn s g write_output_def fopen_w_def fprintf_fopen f o
        Let_def)
      (simp add: desktop_iso_def)
qed

lemma menu_create_null_slot:
  "menu_create wp ww L C r \<lparr>len = 2, values_a = [None, Some d]\<rparr> = Inl NullDeref"
proof -
  have "longest_loop \<lparr>len = 2, values_a = [None, Some d]\<rparr> 0 0 = Inl NullDeref"
    by (subst longest_loop.simps) (simp add: choice_at_def array_get_def)
  then show ?thesis
    by (simp add: menu_create_def)
qed

text \<open>
  C6. A feed that cannot be read does not make the program exit with 1. The Feed
  Reader returns \<^verbatim>\<open>NULL\<close> for the first file; \<^verbatim>\<open>read_iso_choices\<close> still returns a
  choice set, so the test \<^verbatim>\<open>if(!iso_info)\<close> of \<^verbatim>\<open>main\<close> does not fire, the terminal is
  set up, and \<^verbatim>\<open>menu_create\<close> follows the \<^verbatim>\<open>NULL\<close> pointer in
  \<^verbatim>\<open>strlen(choices->values[i]->label)\<close>.
\<close>

theorem main_unreadable_feed_crashes:
  "get_newest_iso failing_world ''missing.json'' (ARCH failing_world) = None
   \<and> status (main failing_world) = Crash NullDeref
   \<and> status (main failing_world) \<noteq> Exit 1"
proof -
  have w: "args_created failing_world = Some failing_args" "alloc_ok failing_world"
    "get_newest_iso failing_world = sample_reader" "ARCH failing_world = ''amd64''"
    "initscr_ok failing_world" "has_colors failing_world" "start_color_ok failing_world"
    by (simp_all add: failing_world_def sample_world_def)
  have failing_choices:
    "read_iso_choices True sample_reader ''amd64'' failing_args
       = Inr ([(''missing.json'', ''amd64''), (''desktop.json'', ''amd64'')],
              Some \<lparr>len = 2, values_a = [None, Some desktop_iso]\<rparr>)"
  proof -
    have "args_ok failing_args"
      by (simp add: args_ok_def failing_args_def)
    then show ?thesis
      by (simp add: read_iso_choices_eq) (simp add: failing_args_def sample_reader_def)
  qed
  have "status (main failing_world) = Crash NullDeref"
    by (simp add: main_def w failing_choices menu_create_null_slot split: prod.splits)
  then show ?thesis
    by (simp add: w sample_reader_def)
qed

section \<open>The rounding of \<^verbatim>\<open>double\<close>\<close>

text \<open>
  \<open>round_double\<close> returns a value of 53 bits at most half a unit in the last place
  from the exact one, rounds a tie to the even mantissa and keeps an exact value;
  so division and multiplication round to nearest, and the conversion to \<^verbatim>\<open>int\<close> is
  the floor of the value, which is not negative.
\<close>

declare bit_length.simps [simp del]

lemma bit_length_bounds:
  "0 < n \<Longrightarrow> 0 < bit_length n \<and> 2 ^ nat (bit_length n - 1) \<le> n \<and> n < 2 ^ nat (bit_length n)"
proof (induction n rule: bit_length.induct)
  case (1 n)
  show ?case
  proof (cases "n = 1")
    case True
    have "bit_length 1 = 1"
      by (simp add: bit_length.simps [of 1] bit_length.simps [of 0])
    then show ?thesis using True by simp
  next
    case False
    then have h: "0 < n div 2" using "1.prems" by simp
    let ?k = "bit_length (n div 2)"
    have ih: "0 < ?k" "2 ^ nat (?k - 1) \<le> n div 2" "n div 2 < 2 ^ nat ?k"
      using "1.IH" h "1.prems" by simp_all
    have b: "bit_length n = 1 + ?k"
      using "1.prems" by (subst bit_length.simps) simp
    have n1: "nat (1 + ?k - 1) = Suc (nat (?k - 1))" and n2: "nat (1 + ?k) = Suc (nat ?k)"
      using ih(1) by simp_all
    have "2 * 2 ^ nat (?k - 1) \<le> n"
      using ih(2) by linarith
    moreover have "n < 2 * 2 ^ nat ?k"
      using ih(3) by linarith
    ultimately show ?thesis
      unfolding b n1 n2 using ih(1) by simp
  qed
qed

lemma bit_length_exponent:
  assumes "0 < n"
  obtains a where "bit_length n = int a + 1" and "2 ^ a \<le> n" and "n < 2 ^ Suc a"
proof -
  from bit_length_bounds [OF assms]
  have pos: "0 < bit_length n" and lo: "2 ^ nat (bit_length n - 1) \<le> n"
    and hi: "n < 2 ^ nat (bit_length n)"
    by simp_all
  have e: "bit_length n = int (nat (bit_length n - 1)) + 1"
    using pos by simp
  have "nat (bit_length n) = Suc (nat (bit_length n - 1))"
    using pos by linarith
  then have "n < 2 ^ Suc (nat (bit_length n - 1))"
    using hi by simp
  then show ?thesis
    using e lo that by blast
qed

lemma half_bounds:
  fixes r q :: int
  assumes "0 \<le> r" and "r < q"
  shows "2 * r \<le> q \<Longrightarrow> \<bar>2 * r\<bar> \<le> q" and "q \<le> 2 * r \<Longrightarrow> \<bar>2 * (r - q)\<bar> \<le> q"
  using assms by (auto simp: abs_if)

lemma round_half_even_error:
  assumes "0 < q"
  shows "\<bar>2 * (p - round_half_even p q * q)\<bar> \<le> q"
proof -
  have pq: "p = p div q * q + p mod q" by simp
  have r: "0 \<le> p mod q" "p mod q < q" using assms by simp_all
  have a: "p - p div q * q = p mod q"
    using pq by linarith
  have b: "p - (p div q + 1) * q = p mod q - q"
    using a by (simp add: algebra_simps)
  consider "2 * (p mod q) < q" | "q < 2 * (p mod q)" | "2 * (p mod q) = q"
    by linarith
  then show ?thesis
  proof cases
    case 1
    then have e: "round_half_even p q = p div q"
      by (simp add: round_half_even_def)
    show ?thesis unfolding e a using 1 half_bounds(1) [OF r] by simp
  next
    case 2
    then have e: "round_half_even p q = p div q + 1"
      by (simp add: round_half_even_def)
    show ?thesis unfolding e b using 2 half_bounds(2) [OF r] by simp
  next
    case 3
    then have "round_half_even p q = p div q \<or> round_half_even p q = p div q + 1"
      by (simp add: round_half_even_def)
    then show ?thesis
    proof
      assume e: "round_half_even p q = p div q"
      show ?thesis unfolding e a using 3 half_bounds(1) [OF r] by simp
    next
      assume e: "round_half_even p q = p div q + 1"
      show ?thesis unfolding e b using 3 half_bounds(2) [OF r] by simp
    qed
  qed
qed

lemma round_half_even_range:
  assumes "0 < q" and "lo * q \<le> p" and "p < hi * q"
  shows "lo \<le> round_half_even p q \<and> round_half_even p q \<le> hi"
proof -
  have "(lo * q) div q \<le> p div q"
    using assms(1,2) by (intro zdiv_mono1) simp_all
  then have l: "lo \<le> p div q"
    using assms(1) by simp
  have "p div q * q \<le> p"
    using assms(1) by (metis mult.commute pos_mod_sign add.commute le_add_same_cancel1 mult_div_mod_eq)
  then have "p div q * q < hi * q"
    using assms(3) by linarith
  then have h: "p div q < hi"
    using assms(1) by (simp add: mult_less_cancel_right)
  show ?thesis
    using l h by (auto simp: round_half_even_def)
qed

lemma half_abs:
  fixes x c :: real
  shows "\<bar>2 * x\<bar> \<le> c \<Longrightarrow> \<bar>x\<bar> \<le> c / 2"
  by (simp add: abs_mult)

lemma pack_double_nearest:
  assumes q: "0 < q" and lo: "2 ^ 52 * q \<le> p" and hi: "p < 2 ^ 53 * q"
  shows "nearest_double (real_of_int p / real_of_int q * 2 powi e)
           (pack_double (round_half_even p q) e)"
proof -
  let ?r = "round_half_even p q"
  have rq: "0 < real_of_int q" using q by simp
  have range: "2 ^ 52 \<le> ?r" "?r \<le> 2 ^ 53"
    using round_half_even_range [OF q lo hi] by simp_all
  have "\<bar>2 * (p - ?r * q)\<bar> \<le> q"
    by (rule round_half_even_error [OF q])
  then have "\<bar>real_of_int (2 * (p - ?r * q))\<bar> \<le> real_of_int q"
    by linarith
  moreover have "real_of_int (2 * (p - ?r * q))
                   = 2 * (real_of_int p - real_of_int ?r * real_of_int q)"
    by simp
  ultimately have "\<bar>2 * (real_of_int p - real_of_int ?r * real_of_int q)\<bar> \<le> real_of_int q"
    by (simp only:)
  then have "\<bar>real_of_int p - real_of_int ?r * real_of_int q\<bar> \<le> real_of_int q / 2"
    by (rule half_abs)
  then have "\<bar>real_of_int p - real_of_int ?r * real_of_int q\<bar> / real_of_int q \<le> 1 / 2"
    using rq by (simp add: field_simps)
  moreover have "\<bar>real_of_int p - real_of_int ?r * real_of_int q\<bar> / real_of_int q
                   = \<bar>real_of_int p / real_of_int q - real_of_int ?r\<bar>"
  proof -
    have "(real_of_int p - real_of_int ?r * real_of_int q) / real_of_int q
            = real_of_int p / real_of_int q - real_of_int ?r"
      using rq by (simp add: field_simps)
    then show ?thesis
      using rq by (metis abs_divide abs_of_pos)
  qed
  ultimately have err: "\<bar>real_of_int p / real_of_int q - real_of_int ?r\<bar> \<le> 1 / 2"
    by simp
  have pe: "(0::real) < 2 powi e"
    by (simp add: zero_less_power_int)
  have "\<bar>real_of_int p / real_of_int q * 2 powi e - real_of_int ?r * 2 powi e\<bar>
          = \<bar>real_of_int p / real_of_int q - real_of_int ?r\<bar> * 2 powi e"
    using pe by (metis abs_mult abs_of_pos left_diff_distrib)
  also have "\<dots> \<le> 1 / 2 * 2 powi e"
    using err pe by (intro mult_right_mono) simp_all
  finally have bound: "\<bar>real_of_int p / real_of_int q * 2 powi e - real_of_int ?r * 2 powi e\<bar>
                         \<le> 2 powi e / 2"
    by simp
  have s: "(2::real) powi (e + 1) = 2 powi e * 2"
    by (simp add: power_int_add)
  have m: "2 ^ 52 \<le> fst (pack_double ?r e)" "fst (pack_double ?r e) < 2 ^ 53"
    using range by (auto simp: pack_double_def)
  have v: "double_value (pack_double ?r e) = real_of_int ?r * 2 powi e"
  proof (cases "?r = 2 ^ 53")
    case True
    then have "double_value (pack_double ?r e) = real_of_int (2 ^ 52) * 2 powi (e + 1)"
      by (simp add: pack_double_def double_value_def)
    also have "\<dots> = real_of_int (2 ^ 53) * 2 powi e"
      unfolding s by simp
    finally show ?thesis using True by simp
  next
    case False
    then show ?thesis by (simp add: pack_double_def double_value_def)
  qed
  have u: "(2::real) powi e / 2 \<le> 2 powi (snd (pack_double ?r e)) / 2"
  proof (cases "?r = 2 ^ 53")
    case True
    then have e1: "snd (pack_double ?r e) = e + 1" by (simp add: pack_double_def)
    have "(2::real) powi e \<le> 2 powi e * 2" using pe by linarith
    then show ?thesis unfolding e1 s by simp
  next
    case False
    then show ?thesis by (simp add: pack_double_def)
  qed
  show ?thesis
    unfolding nearest_double_def v using m bound u by linarith
qed

lemma round_scaled_nearest:
  assumes q: "0 < q" and lo: "2 ^ 52 * q \<le> p" and hi: "p < 2 ^ 54 * q"
  shows "nearest_double (real_of_int p / real_of_int q * 2 powi e) (round_scaled p q e)"
proof (cases "2 ^ 53 * q \<le> p")
  case True
  have q2: "0 < 2 * q" using q by simp
  have lo2: "2 ^ 52 * (2 * q) \<le> p" using True by simp
  have hi2: "p < 2 ^ 53 * (2 * q)" using hi by simp
  have s: "(2::real) powi (e + 1) = 2 powi e * 2"
    by (simp add: power_int_add)
  have "real_of_int p / real_of_int (2 * q) * 2 powi (e + 1)
          = real_of_int p / real_of_int q * 2 powi e"
    unfolding s using q by simp
  then show ?thesis
    using pack_double_nearest [OF q2 lo2 hi2, of "e + 1"] True
    by (simp add: round_scaled_def)
next
  case False
  then have "p < 2 ^ 53 * q" by simp
  from pack_double_nearest [OF q lo this, of e] show ?thesis
    using False by (simp add: round_scaled_def)
qed


lemma round_double_nearest:
  assumes p: "0 < p" and q: "0 < q"
  shows "nearest_double (real_of_int p / real_of_int q * 2 powi e) (round_double p q e)"
proof -
  obtain a where bp: "bit_length p = int a + 1" and pa: "2 ^ a \<le> p" "p < 2 ^ Suc a"
    using bit_length_exponent [OF p] by blast
  obtain b where bq: "bit_length q = int b + 1" and qb: "2 ^ b \<le> q" "q < 2 ^ Suc b"
    using bit_length_exponent [OF q] by blast
  let ?k = "53 + bit_length q - bit_length p"
  have k: "?k = 53 + int b - int a"
    by (simp add: bp bq)
  have rq: "0 < real_of_int q" using q by simp
  show ?thesis
  proof (cases "0 \<le> ?k")
    case True
    define j where "j = nat ?k"
    have j: "a + j = 53 + b" and kj: "?k = int j"
      using True k by (simp_all add: j_def)
    have "(2::int) ^ 52 * q < 2 ^ 52 * 2 ^ Suc b"
      using qb(2) by simp
    also have "\<dots> = 2 ^ a * 2 ^ j"
    proof -
      have "52 + Suc b = a + j" using j by simp
      then have "(2::int) ^ (52 + Suc b) = 2 ^ (a + j)" by (simp only:)
      then show ?thesis by (simp only: power_add)
    qed
    also have "\<dots> \<le> p * 2 ^ j"
      using pa(1) by simp
    finally have lo: "2 ^ 52 * q \<le> p * 2 ^ j" by simp
    have "p * 2 ^ j < 2 ^ Suc a * 2 ^ j"
      using pa(2) by simp
    also have "\<dots> = 2 ^ 54 * 2 ^ b"
    proof -
      have "Suc a + j = 54 + b" using j by simp
      then have "(2::int) ^ (Suc a + j) = 2 ^ (54 + b)" by (simp only:)
      then show ?thesis by (simp only: power_add)
    qed
    also have "\<dots> \<le> 2 ^ 54 * q"
      using qb(1) by simp
    finally have hi: "p * 2 ^ j < 2 ^ 54 * q" .
    have "(2::real) powi (int j + (e - int j)) = 2 powi int j * 2 powi (e - int j)"
      by (rule power_int_add) simp
    then have "(2::real) ^ j * 2 powi (e - int j) = 2 powi e"
      by simp
    then have "real_of_int p / real_of_int q * (2 ^ j * 2 powi (e - int j))
                 = real_of_int p / real_of_int q * 2 powi e"
      by (simp only:)
    then have v: "real_of_int (p * 2 ^ j) / real_of_int q * 2 powi (e - int j)
                 = real_of_int p / real_of_int q * 2 powi e"
      by simp
    have rd: "round_double p q e = round_scaled (p * 2 ^ j) q (e - int j)"
      using p True by (simp add: round_double_def round_shift_def j_def)
    from round_scaled_nearest [OF q lo hi, of "e - int j"] show ?thesis
      unfolding rd v .
  next
    case False
    define j where "j = nat (- ?k)"
    have j: "a = 53 + b + j" and kj: "- ?k = int j"
      using False k by (simp_all add: j_def)
    have qj: "0 < q * 2 ^ j" using q by simp
    have "(2::int) ^ 52 * (q * 2 ^ j) < 2 ^ 52 * (2 ^ Suc b * 2 ^ j)"
      using qb(2) by simp
    also have "\<dots> = 2 ^ a"
    proof -
      have "52 + (Suc b + j) = a" using j by simp
      then have "(2::int) ^ (52 + (Suc b + j)) = 2 ^ a" by (simp only:)
      then show ?thesis by (simp only: power_add)
    qed
    also have "\<dots> \<le> p" by (rule pa(1))
    finally have lo: "2 ^ 52 * (q * 2 ^ j) \<le> p" by simp
    have "p < 2 ^ Suc a" by (rule pa(2))
    also have "\<dots> = 2 ^ 54 * (2 ^ b * 2 ^ j)"
    proof -
      have "Suc a = 54 + (b + j)" using j by simp
      then have "(2::int) ^ Suc a = 2 ^ (54 + (b + j))" by (simp only:)
      then show ?thesis by (simp only: power_add)
    qed
    also have "\<dots> \<le> 2 ^ 54 * (q * 2 ^ j)"
      using qb(1) by simp
    finally have hi: "p < 2 ^ 54 * (q * 2 ^ j)" .
    have "(2::real) powi (e + int j) = 2 powi e * 2 powi int j"
      by (rule power_int_add) simp
    then have "(2::real) powi (e + int j) = 2 powi e * 2 ^ j"
      by simp
    then have v: "real_of_int p / real_of_int (q * 2 ^ j) * 2 powi (e + int j)
                 = real_of_int p / real_of_int q * 2 powi e"
      by simp
    have ek: "e - ?k = e + int j" using kj by linarith
    have "round_double p q e = round_scaled p (q * 2 ^ j) (e - ?k)"
      using p False by (simp add: round_double_def round_shift_def j_def)
    then have rd: "round_double p q e = round_scaled p (q * 2 ^ j) (e + int j)"
      by (simp only: ek)
    from round_scaled_nearest [OF qj lo hi, of "e + int j"] show ?thesis
      unfolding rd v .
  qed
qed


lemma round_half_even_tie:
  assumes "0 < q" and "2 * (p mod q) = q"
  shows "even (round_half_even p q)"
  using assms by (simp add: round_half_even_def)

lemma round_half_even_exact: "0 < q \<Longrightarrow> round_half_even (k * q) q = k"
  by (simp add: round_half_even_def)

lemma double_div_nearest:
  assumes "0 < fst x" and "0 < fst y"
  shows "nearest_double (double_value x / double_value y) (double_div x y)"
proof -
  have "(2::real) powi (snd x - snd y) = 2 powi snd x / 2 powi snd y"
    by (simp add: power_int_diff)
  then have "real_of_int (fst x) / real_of_int (fst y) * 2 powi (snd x - snd y)
               = double_value x / double_value y"
    by (simp add: double_value_def)
  then show ?thesis
    using round_double_nearest [OF assms, of "snd x - snd y"]
    by (simp add: double_div_def)
qed

lemma double_mul_nearest:
  assumes "0 < fst x" and "0 < fst y"
  shows "nearest_double (double_value x * double_value y) (double_mul x y)"
proof -
  have p: "0 < fst x * fst y"
    using assms by simp
  have "(2::real) powi (snd x + snd y) = 2 powi snd x * 2 powi snd y"
    by (rule power_int_add) simp
  then have "real_of_int (fst x * fst y) / real_of_int 1 * 2 powi (snd x + snd y)
               = double_value x * double_value y"
    by (simp add: double_value_def)
  then show ?thesis
    using round_double_nearest [OF p, of 1 "snd x + snd y"]
    by (simp add: double_mul_def)
qed

lemma double_of_int_nearest:
  assumes "0 < n"
  shows "nearest_double (real_of_int n) (double_of_int n)"
  using round_double_nearest [OF assms, of 1 0] by (simp add: double_of_int_def)

lemma double_of_small_int:
  "double_value (double_of_int 255) = 255" and "double_value (double_of_int 1000) = 1000"
  by (simp_all add: double_of_int_def round_double_def round_shift_def round_scaled_def
      pack_double_def round_half_even_def double_value_def bit_length.simps)


lemma int_of_double_floor: "int_of_double x = \<lfloor>double_value x\<rfloor>"
proof (cases "0 \<le> snd x")
  case True
  then have "(2::real) powi snd x = 2 ^ nat (snd x)"
    by (simp add: power_int_def)
  then have "double_value x = real_of_int (fst x * 2 ^ nat (snd x))"
    by (simp add: double_value_def)
  then show ?thesis
    using True by (simp only: int_of_double_def floor_of_int if_True)
next
  case False
  then have "(2::real) powi snd x = inverse (2 ^ nat (- snd x))"
    by (simp add: power_int_def power_one_over inverse_eq_divide)
  then have "double_value x = real_of_int (fst x) / real_of_int (2 ^ nat (- snd x))"
    by (simp add: double_value_def divide_inverse)
  then show ?thesis
    using False by (simp only: int_of_double_def floor_divide_of_int_eq if_False)
qed

section \<open>Properties of the colour conversion\<close>

text \<open>
  The conversion is evaluated on each of the 256 values of a byte, rounding after the
  division and after the multiplication as binary64 does, and compared with the
  quotient of the integers.
\<close>

lemma color_values_0: "list_all color_value_exact [0..31]"
  by code_simp

lemma color_values_1: "list_all color_value_exact [32..63]"
  by code_simp

lemma color_values_2: "list_all color_value_exact [64..95]"
  by code_simp

lemma color_values_3: "list_all color_value_exact [96..127]"
  by code_simp

lemma color_values_4: "list_all color_value_exact [128..159]"
  by code_simp

lemma color_values_5: "list_all color_value_exact [160..191]"
  by code_simp

lemma color_values_6: "list_all color_value_exact [192..223]"
  by code_simp

lemma color_values_7: "list_all color_value_exact [224..255]"
  by code_simp


lemma color_value_to_ncurses_eq:
  assumes "0 \<le> n" and "n \<le> 255"
  shows "color_value_to_ncurses n = (1000 * n) div 255"
proof -
  have "n \<in> set [0..31] \<or> n \<in> set [32..63] \<or> n \<in> set [64..95] \<or> n \<in> set [96..127]
        \<or> n \<in> set [128..159] \<or> n \<in> set [160..191] \<or> n \<in> set [192..223]
        \<or> n \<in> set [224..255]"
    using assms by (simp only: set_upto atLeastAtMost_iff) arith
  then have "color_value_exact n"
    using color_values_0 color_values_1 color_values_2 color_values_3
      color_values_4 color_values_5 color_values_6 color_values_7
    unfolding list_all_iff by blast
  then show ?thesis
    by (simp add: color_value_exact_def)
qed

lemma color_byte_to_ncurses_eq: "color_byte_to_ncurses b = (1000 * uint b) div 255"
proof -
  have "uint b < 2 ^ 8"
    using uint_bounded [of b] by simp
  then have "uint b \<le> 255" by simp
  then show ?thesis
    unfolding color_byte_to_ncurses_def by (intro color_value_to_ncurses_eq) simp_all
qed

text \<open>
  C10. For every byte \<open>b\<close>, \<^verbatim>\<open>color_byte_to_ncurses\<close> returns \<open>b / 255 * 1000\<close> cut
  to an integer, which is \<open>1000 * b div 255\<close>: the two roundings of the floating
  point computation never carry the result across an integer. It maps 0 to 0 and
  255 to 1000, lies in \<open>[0, 1000]\<close>, and does not decrease when the byte grows.
\<close>

theorem color_byte_to_ncurses_scale:
  "color_byte_to_ncurses b = (1000 * uint b) div 255
   \<and> color_byte_to_ncurses b = \<lfloor>real_of_int (uint b) / 255 * 1000\<rfloor>
   \<and> color_byte_to_ncurses 0 = 0
   \<and> color_byte_to_ncurses 255 = 1000
   \<and> 0 \<le> color_byte_to_ncurses b
   \<and> color_byte_to_ncurses b \<le> 1000
   \<and> (a \<le> b \<longrightarrow> color_byte_to_ncurses a \<le> color_byte_to_ncurses b)"
proof -
  have u: "0 \<le> uint b" "uint b \<le> 255"
    using uint_bounded [of b] by simp_all
  have "real_of_int (uint b) / 255 * 1000 = real_of_int (1000 * uint b) / real_of_int 255"
    by simp
  then have f: "\<lfloor>real_of_int (uint b) / 255 * 1000\<rfloor> = (1000 * uint b) div 255"
    by (simp only: floor_divide_of_int_eq)
  have lo: "0 \<le> (1000 * uint b) div 255"
    using u by (simp add: pos_imp_zdiv_nonneg_iff)
  have "(1000 * uint b) div 255 \<le> (1000 * 255) div 255"
    using u by (intro zdiv_mono1) simp_all
  then have hi: "(1000 * uint b) div 255 \<le> 1000" by simp
  have mono: "(1000 * uint a) div 255 \<le> (1000 * uint b) div 255" if "a \<le> b"
  proof -
    have "uint a \<le> uint b"
      using that by (simp add: word_le_def)
    then show ?thesis
      by (intro zdiv_mono1) simp_all
  qed
  show ?thesis
    using f lo hi mono by (simp add: color_byte_to_ncurses_eq)
qed

theorem color_byte_to_ncurses_scale_witness:
  "(0x54 :: 8 word) \<le> 0xE9
   \<and> color_byte_to_ncurses 0x54 = 329
   \<and> color_byte_to_ncurses 0xE9 = 913
   \<and> color_byte_to_ncurses 0x54 \<le> color_byte_to_ncurses 0xE9"
  using color_byte_to_ncurses_scale [of "0xE9" "0x54"] color_byte_to_ncurses_scale [of "0x54" "0x54"]
  by simp

text \<open>The colours that \<^verbatim>\<open>resources_create\<close> defines when the terminal can change them.\<close>

lemma resources_create_colors:
  "snd (resources_create True) =
     [InitColor 1 913 329 125, InitColor 7 1000 1000 1000, InitColor 2 54 517 125,
      InitColor 0 0 0 0, InitPair 1 0 1, InitPair 2 7 1, InitPair 3 7 2]"
  by (simp add: resources_create_def init_color_from_bytes_def color_byte_to_ncurses_eq Let_def)

end
